theory Spec2Isabelle
  imports Complex_Main "HOL-Library.AList" "HOL-Library.Sublist"
begin

section \<open>Python values\<close>

text \<open>
  The worker is a Python 3 program (\<^verbatim>\<open>yield from\<close>, \<^verbatim>\<open>FileNotFoundError\<close>,
  \<^verbatim>\<open>subprocess.run\<close>). A \<^verbatim>\<open>str\<close> is the list of its code points, which are the
  numbers below \<open>0x110000\<close>; \<^verbatim>\<open>bytes\<close>, which is what a pipe or the store delivers,
  are an Isabelle string. \<open>cp\<close> is the code point of an ASCII character and \<open>ascii\<close>
  the \<^verbatim>\<open>str\<close> of an ASCII literal.
\<close>

type_synonym unicode = "nat list"

abbreviation cp :: "char \<Rightarrow> nat" where
  "cp c \<equiv> of_char c"

abbreviation ascii :: "string \<Rightarrow> unicode" where
  "ascii s \<equiv> map of_char s"

text \<open>
  Exceptions are values: a function that can raise returns \<open>exn + 'a\<close>.
  \<open>UserError m\<close> stands for an exception object that carries a \<^verbatim>\<open>message\<close>
  attribute holding \<open>m\<close>; the built-in exceptions of Python 3 have no such attribute.
\<close>

datatype exn =
    JSONDecodeError
  | RecursionError
  | TypeError
  | ValueError
  | AttributeError
  | FileNotFoundError
  | FileExistsError
  | NotADirectoryError
  | IsADirectoryError
  | BadFileDescriptor
  | TimeoutExpired
  | ResponseError
  | UserError unicode

datatype pydata = Str unicode | Bytes string

text \<open>
  Two limits of the interpreter reach into the decoder. \<open>recursion_room\<close> is the number
  of nested calls the recursion limit still allows where \<^verbatim>\<open>raw_decode\<close> is called
  (with the default limit of 1000 and the decoder called from the top of a script it is
  997). \<open>int_max_str_digits\<close> is \<^verbatim>\<open>sys.get_int_max_str_digits()\<close>: 4300 by default,
  0 when the limit is switched off or the interpreter predates it.
\<close>

record interpreter =
  recursion_room :: nat
  int_max_str_digits :: nat

section \<open>The JSON decoder used by \<^verbatim>\<open>loads_partial_json\<close>\<close>

text \<open>
  \<^verbatim>\<open>json.JSONDecoder().raw_decode\<close> is library code; it is modelled here after the
  decoder of CPython (\<^verbatim>\<open>json/decoder.py\<close> and the scanner of \<^verbatim>\<open>_json.c\<close>): no
  whitespace is skipped before the value, whitespace is \<open>' \t\n\r'\<close>, numbers follow
  \<^verbatim>\<open>(-?(?:0|[1-9]\d*))(\.\d+)?([eE][-+]?\d+)?\<close> with ASCII digits, strings are scanned
  in strict mode, and \<^verbatim>\<open>NaN\<close>, \<^verbatim>\<open>Infinity\<close>, \<^verbatim>\<open>-Infinity\<close> are accepted. A float
  is kept as the text handed to \<^verbatim>\<open>float\<close>. The decoder raises
  \<^verbatim>\<open>JSONDecodeError\<close> where the text is not JSON (\<open>Inl JSONDecodeError\<close> also stands
  for the \<^verbatim>\<open>StopIteration\<close> of the scanner, which \<^verbatim>\<open>raw_decode\<close> turns into that
  error), \<^verbatim>\<open>RecursionError\<close> where objects and arrays are nested deeper than the
  recursion limit allows, and \<^verbatim>\<open>ValueError\<close> where an integer has more digits than
  \<^verbatim>\<open>int\<close> converts. Running out of memory is not modelled.
\<close>

datatype json =
    JNull
  | JBool bool
  | JInt int
  | JFloat unicode
  | JString unicode
  | JArray "json list"
  | JObject "(unicode \<times> json) list"

definition json_ws :: "nat \<Rightarrow> bool" where
  "json_ws c = (c = cp CHR '' '' \<or> c = cp CHR 0x09 \<or> c = cp CHR 0x0A \<or> c = cp CHR 0x0D)"

definition skip_ws :: "unicode \<Rightarrow> unicode" where
  "skip_ws s = dropWhile json_ws s"

definition is_digit :: "nat \<Rightarrow> bool" where
  "is_digit c = (cp CHR ''0'' \<le> c \<and> c \<le> cp CHR ''9'')"

definition hex_digit :: "nat \<Rightarrow> nat option" where
  "hex_digit k =
     (if cp CHR ''0'' \<le> k \<and> k \<le> cp CHR ''9'' then Some (k - cp CHR ''0'')
      else if cp CHR ''a'' \<le> k \<and> k \<le> cp CHR ''f'' then Some (k - cp CHR ''a'' + 10)
      else if cp CHR ''A'' \<le> k \<and> k \<le> cp CHR ''F'' then Some (k - cp CHR ''A'' + 10)
      else None)"

fun hex4 :: "unicode \<Rightarrow> nat option" where
  "hex4 (a # b # c # d # r) =
     (case (hex_digit a, hex_digit b, hex_digit c, hex_digit d) of
        (Some x, Some y, Some z, Some w) \<Rightarrow> Some (((x * 16 + y) * 16 + z) * 16 + w)
      | _ \<Rightarrow> None)"
| "hex4 _ = None"

definition backslash :: "nat \<Rightarrow> nat option" where
  "backslash e =
     (if e = cp CHR 0x22 then Some 0x22
      else if e = cp CHR 0x5C then Some 0x5C
      else if e = cp CHR ''/'' then Some 0x2F
      else if e = cp CHR ''b'' then Some 0x08
      else if e = cp CHR ''f'' then Some 0x0C
      else if e = cp CHR ''n'' then Some 0x0A
      else if e = cp CHR ''r'' then Some 0x0D
      else if e = cp CHR ''t'' then Some 0x09
      else None)"

text \<open>
  An escape \<^verbatim>\<open>\uXXXX\<close> for a high surrogate that is followed at once by an escape
  for a low surrogate is one code point: \<open>surrogate_pair hi s\<close> is that code point when
  \<open>s\<close>, the text after the first escape, begins with the second.
\<close>

definition surrogate_pair :: "nat \<Rightarrow> unicode \<Rightarrow> nat option" where
  "surrogate_pair hi s =
     (if 0xD800 \<le> hi \<and> hi \<le> 0xDBFF \<and> take 2 s = [cp CHR 0x5C, cp CHR ''u''] then
        (case hex4 (drop 2 s) of
           None \<Rightarrow> None
         | Some lo \<Rightarrow>
             if 0xDC00 \<le> lo \<and> lo \<le> 0xDFFF
             then Some (0x10000 + (hi - 0xD800) * 0x400 + (lo - 0xDC00))
             else None)
      else None)"

text \<open>The text after the opening quote, up to the closing one.\<close>

fun scanstring :: "unicode \<Rightarrow> unicode \<Rightarrow> (unicode \<times> unicode) option" where
  "scanstring [] acc = None"
| "scanstring (c # s) acc =
     (if c = cp CHR 0x22 then Some (acc, s)
      else if c = cp CHR 0x5C then
        (case s of
           [] \<Rightarrow> None
         | e # s' \<Rightarrow>
             if e = cp CHR ''u'' then
               (case hex4 s' of
                  None \<Rightarrow> None
                | Some u \<Rightarrow>
                    (case surrogate_pair u (drop 4 s') of
                       Some pair \<Rightarrow> scanstring (drop 10 s') (acc @ [pair])
                     | None \<Rightarrow> scanstring (drop 4 s') (acc @ [u])))
             else
               (case backslash e of
                  None \<Rightarrow> None
                | Some ch \<Rightarrow> scanstring s' (acc @ [ch])))
      else if c < 0x20 then None
      else scanstring s (acc @ [c]))"

text \<open>One or more digits: \<^verbatim>\<open>\d+\<close>.\<close>

definition digits1 :: "unicode \<Rightarrow> (unicode \<times> unicode) option" where
  "digits1 s =
     (if takeWhile is_digit s \<noteq> [] then Some (takeWhile is_digit s, dropWhile is_digit s)
      else None)"

text \<open>\<^verbatim>\<open>0|[1-9]\d*\<close>: a leading zero is a number of its own.\<close>

definition match_digits :: "unicode \<Rightarrow> (unicode \<times> unicode) option" where
  "match_digits s =
     (case s of
        [] \<Rightarrow> None
      | d # r \<Rightarrow>
          if d = cp CHR ''0'' then Some ([d], r)
          else if is_digit d then Some (d # takeWhile is_digit r, dropWhile is_digit r)
          else None)"

definition match_integer :: "unicode \<Rightarrow> (unicode \<times> unicode) option" where
  "match_integer s =
     (case s of
        [] \<Rightarrow> None
      | c # r \<Rightarrow>
          if c = cp CHR ''-'' then
            (case match_digits r of None \<Rightarrow> None | Some (ds, r') \<Rightarrow> Some (c # ds, r'))
          else match_digits s)"

definition match_frac :: "unicode \<Rightarrow> unicode \<times> unicode" where
  "match_frac s =
     (case s of
        [] \<Rightarrow> ([], s)
      | c # r \<Rightarrow>
          if c = cp CHR ''.'' then
            (case digits1 r of None \<Rightarrow> ([], s) | Some (ds, r') \<Rightarrow> (c # ds, r'))
          else ([], s))"

definition match_exp :: "unicode \<Rightarrow> unicode \<times> unicode" where
  "match_exp s =
     (case s of
        [] \<Rightarrow> ([], s)
      | c # r \<Rightarrow>
          if c = cp CHR ''e'' \<or> c = cp CHR ''E'' then
            (case r of
               [] \<Rightarrow> ([], s)
             | g # r1 \<Rightarrow>
                 if g = cp CHR ''-'' \<or> g = cp CHR ''+'' then
                   (case digits1 r1 of None \<Rightarrow> ([], s) | Some (ds, r') \<Rightarrow> (c # g # ds, r'))
                 else
                   (case digits1 r of None \<Rightarrow> ([], s) | Some (ds, r') \<Rightarrow> (c # ds, r')))
          else ([], s))"

definition digit_val :: "nat \<Rightarrow> int" where
  "digit_val c = int c - 48"

definition parse_int :: "unicode \<Rightarrow> int" where
  "parse_int s =
     (if take 1 s = [cp CHR ''-''] then - foldl (\<lambda>a c. 10 * a + digit_val c) 0 (drop 1 s)
      else foldl (\<lambda>a c. 10 * a + digit_val c) 0 s)"

text \<open>
  \<^verbatim>\<open>int\<close> of the text of an integer (\<^verbatim>\<open>PyLong_FromString\<close>): beyond 640 digits the
  number of digits, the sign not counted, is held against the limit, if there is one.
\<close>

definition long_from_string :: "nat \<Rightarrow> unicode \<Rightarrow> exn + int" where
  "long_from_string max_str_digits s =
     (let digits = length (if take 1 s = [cp CHR ''-''] then drop 1 s else s)
      in if 640 < digits \<and> 0 < max_str_digits \<and> max_str_digits < digits
         then Inl ValueError
         else Inr (parse_int s))"

definition match_number :: "nat \<Rightarrow> unicode \<Rightarrow> exn + json \<times> unicode" where
  "match_number max_str_digits s =
     (case match_integer s of
        None \<Rightarrow> Inl JSONDecodeError
      | Some (integer, r1) \<Rightarrow>
          (case match_frac r1 of (fraction, r2) \<Rightarrow>
            (case match_exp r2 of (exponent, r3) \<Rightarrow>
               if fraction \<noteq> [] \<or> exponent \<noteq> []
               then Inr (JFloat (integer @ fraction @ exponent), r3)
               else
                 (case long_from_string max_str_digits integer of
                    Inl e \<Rightarrow> Inl e
                  | Inr n \<Rightarrow> Inr (JInt n, r3)))))"

definition py_dict :: "(unicode \<times> json) list \<Rightarrow> (unicode \<times> json) list" where
  "py_dict pairs = foldl (\<lambda>d (k, v). AList.update k v d) [] pairs"

definition scan_atom :: "nat \<Rightarrow> unicode \<Rightarrow> exn + json \<times> unicode" where
  "scan_atom max_str_digits s =
     (if take 1 s = [cp CHR 0x22] then
        (case scanstring (drop 1 s) [] of
           None \<Rightarrow> Inl JSONDecodeError
         | Some (u, r') \<Rightarrow> Inr (JString u, r'))
      else if take 4 s = ascii ''null'' then Inr (JNull, drop 4 s)
      else if take 4 s = ascii ''true'' then Inr (JBool True, drop 4 s)
      else if take 5 s = ascii ''false'' then Inr (JBool False, drop 5 s)
      else if take 3 s = ascii ''NaN'' then Inr (JFloat (ascii ''NaN''), drop 3 s)
      else if take 8 s = ascii ''Infinity'' then Inr (JFloat (ascii ''Infinity''), drop 8 s)
      else if take 9 s = ascii ''-Infinity'' then Inr (JFloat (ascii ''-Infinity''), drop 9 s)
      else match_number max_str_digits s)"

text \<open>
  The scanner. An object or an array is entered through a guarded recursive call
  (\<^verbatim>\<open>Py_EnterRecursiveCall\<close>), which raises \<^verbatim>\<open>RecursionError\<close> when no room is left,
  before anything inside is looked at; what is inside has one level less.
\<close>

function scan_once :: "nat \<Rightarrow> nat \<Rightarrow> unicode \<Rightarrow> exn + json \<times> unicode"
  and parse_array :: "nat \<Rightarrow> nat \<Rightarrow> json list \<Rightarrow> unicode \<Rightarrow> exn + json \<times> unicode"
  and parse_object ::
    "nat \<Rightarrow> nat \<Rightarrow> (unicode \<times> json) list \<Rightarrow> unicode \<Rightarrow> exn + json \<times> unicode"
where
  "scan_once max_str_digits room [] = Inl JSONDecodeError"
| "scan_once max_str_digits room (c # r) =
     (if c = cp CHR ''{'' then
        (case room of
           0 \<Rightarrow> Inl RecursionError
         | Suc room' \<Rightarrow>
             (case skip_ws r of
                [] \<Rightarrow> Inl JSONDecodeError
              | d # r' \<Rightarrow>
                  if d = cp CHR ''}'' then Inr (JObject [], r')
                  else if d = cp CHR 0x22 then parse_object max_str_digits room' [] r'
                  else Inl JSONDecodeError))
      else if c = cp CHR ''['' then
        (case room of
           0 \<Rightarrow> Inl RecursionError
         | Suc room' \<Rightarrow>
             (case skip_ws r of
                [] \<Rightarrow> Inl JSONDecodeError
              | d # r' \<Rightarrow>
                  if d = cp CHR '']'' then Inr (JArray [], r')
                  else parse_array max_str_digits room' [] (d # r')))
      else scan_atom max_str_digits (c # r))"
| "parse_array max_str_digits room acc s =
     (case scan_once max_str_digits room s of
        Inl e \<Rightarrow> Inl e
      | Inr (v, r) \<Rightarrow>
          if length r < length s then
            (case skip_ws r of
               [] \<Rightarrow> Inl JSONDecodeError
             | d # r' \<Rightarrow>
                 if d = cp CHR '']'' then Inr (JArray (acc @ [v]), r')
                 else if d = cp CHR '','' then
                   parse_array max_str_digits room (acc @ [v]) (skip_ws r')
                 else Inl JSONDecodeError)
          else Inl JSONDecodeError)"
| "parse_object max_str_digits room acc s =
     (case scanstring s [] of
        None \<Rightarrow> Inl JSONDecodeError
      | Some (k, r) \<Rightarrow>
          (case skip_ws r of
             [] \<Rightarrow> Inl JSONDecodeError
           | c # r1 \<Rightarrow>
               if c \<noteq> cp CHR '':'' then Inl JSONDecodeError
               else
                 (case scan_once max_str_digits room (skip_ws r1) of
                    Inl e \<Rightarrow> Inl e
                  | Inr (v, r2) \<Rightarrow>
                      if length r2 < length (skip_ws r1) then
                        (case skip_ws r2 of
                           [] \<Rightarrow> Inl JSONDecodeError
                         | d # r3 \<Rightarrow>
                             if d = cp CHR ''}'' then
                               Inr (JObject (py_dict (acc @ [(k, v)])), r3)
                             else if d = cp CHR '','' then
                               (case skip_ws r3 of
                                  [] \<Rightarrow> Inl JSONDecodeError
                                | q # r4 \<Rightarrow>
                                    if q = cp CHR 0x22
                                    then parse_object max_str_digits room (acc @ [(k, v)]) r4
                                    else Inl JSONDecodeError)
                             else Inl JSONDecodeError)
                      else Inl JSONDecodeError)))"
  apply pat_completeness
  apply (simp_all only: list.inject list.distinct sum.inject sum.distinct prod.inject simp_thms)
  done

text \<open>
  \<^verbatim>\<open>raw_decode(s)\<close> returns the value and the index where it ends, or raises.
\<close>

definition raw_decode :: "interpreter \<Rightarrow> unicode \<Rightarrow> exn + json \<times> nat" where
  "raw_decode ip s =
     (case scan_once (int_max_str_digits ip) (recursion_room ip) s of
        Inl e \<Rightarrow> Inl e
      | Inr (obj, r) \<Rightarrow> Inr (obj, length s - length r))"

text \<open>
  What the decoder can raise and when: \<^verbatim>\<open>RecursionError\<close> needs more text than there
  is room for nesting, \<^verbatim>\<open>ValueError\<close> a digit limit and more text than it allows.
\<close>

definition may_raise :: "nat \<Rightarrow> nat \<Rightarrow> nat \<Rightarrow> exn \<Rightarrow> bool" where
  "may_raise mx room n e =
     (e = JSONDecodeError
      \<or> (e = RecursionError \<and> room < n)
      \<or> (e = ValueError \<and> 0 < mx \<and> 640 < n \<and> mx < n))"

text \<open>
  \<^verbatim>\<open>str.strip()\<close> removes the characters for which \<^verbatim>\<open>str.isspace\<close> holds: these
  are all the code points it holds for.
\<close>

definition py_isspace :: "nat \<Rightarrow> bool" where
  "py_isspace k =
     ((0x09 \<le> k \<and> k \<le> 0x0D) \<or> (0x1C \<le> k \<and> k \<le> 0x20) \<or> k = 0x85 \<or> k = 0xA0
      \<or> k = 0x1680 \<or> (0x2000 \<le> k \<and> k \<le> 0x200A) \<or> k = 0x2028 \<or> k = 0x2029
      \<or> k = 0x202F \<or> k = 0x205F \<or> k = 0x3000)"

definition py_strip :: "unicode \<Rightarrow> unicode" where
  "py_strip s = rev (dropWhile py_isspace (rev (dropWhile py_isspace s)))"

datatype pytype = PyDict | PyList | PyStr | PyInt | PyFloat | PyBool | PyNoneType

fun isinstance :: "json \<Rightarrow> pytype \<Rightarrow> bool" where
  "isinstance (JObject ps) t = (t = PyDict)"
| "isinstance (JArray vs) t = (t = PyList)"
| "isinstance (JString u) t = (t = PyStr)"
| "isinstance (JInt n) t = (t = PyInt)"
| "isinstance (JFloat x) t = (t = PyFloat)"
| "isinstance (JBool b) t = (t = PyBool \<or> t = PyInt)"
| "isinstance JNull t = (t = PyNoneType)"

section \<open>\<^verbatim>\<open>loads_partial_json\<close> and \<^verbatim>\<open>create_test_script_result\<close>\<close>

text \<open>
  The \<^verbatim>\<open>while\<close> loop of \<^verbatim>\<open>loads_partial_json\<close> on a \<^verbatim>\<open>str\<close>. A result \<open>None\<close> means
  that the loop does not return, \<open>Some (Inl e)\<close> that it raises \<open>e\<close>. Only
  \<^verbatim>\<open>json.JSONDecodeError\<close> is caught.
\<close>

partial_function (option) loads_loop ::
  "interpreter \<Rightarrow> unicode \<Rightarrow> pytype option \<Rightarrow> nat \<Rightarrow> json list \<Rightarrow> bool \<Rightarrow>
     (exn + json list \<times> bool) option"
where
  "loads_loop ip json_string expected_type i results malformed =
     (if i < length json_string then
        (case raw_decode ip (drop i json_string) of
           Inr (obj, ind) \<Rightarrow>
             loads_loop ip json_string expected_type (i + ind)
               (if (case expected_type of None \<Rightarrow> True | Some t \<Rightarrow> isinstance obj t)
                then results @ [obj] else results)
               (if py_strip (take ind (drop i json_string)) \<noteq> [] then True else malformed)
         | Inl e \<Rightarrow>
             if e = JSONDecodeError then
               loads_loop ip json_string expected_type (i + 1) results
                 (if py_strip [json_string ! i] \<noteq> [] then True else malformed)
             else Some (Inl e))
      else Some (Inr (results, malformed)))"

text \<open>
  On \<^verbatim>\<open>bytes\<close>, \<^verbatim>\<open>len\<close> and slicing work, but \<^verbatim>\<open>raw_decode\<close> raises \<^verbatim>\<open>TypeError\<close>
  (first argument must be a string), which the handler does not catch: the first
  iteration raises, and only empty \<^verbatim>\<open>bytes\<close> get past the loop.
\<close>

definition loads_partial_json ::
  "interpreter \<Rightarrow> pydata \<Rightarrow> pytype option \<Rightarrow> (exn + json list \<times> bool) option" where
  "loads_partial_json ip json_string expected_type =
     (case json_string of
        Str s \<Rightarrow> loads_loop ip s expected_type 0 [] False
      | Bytes b \<Rightarrow> if 0 < length b then Some (Inl TypeError) else Some (Inr ([], False)))"

record execution_result =
  r_file_name :: string
  r_time :: nat
  r_timeout :: "nat option"
  r_tests :: "json list"
  r_stderr :: "pydata option"
  r_malformed :: "pydata option"

definition truthy :: "pydata \<Rightarrow> bool" where
  "truthy d = (case d of Str s \<Rightarrow> s \<noteq> [] | Bytes b \<Rightarrow> b \<noteq> [])"

definition create_test_script_result ::
  "interpreter \<Rightarrow> string \<Rightarrow> pydata \<Rightarrow> pydata \<Rightarrow> nat \<Rightarrow> nat option \<Rightarrow>
     (exn + execution_result) option" where
  "create_test_script_result ip file_name stdout stderr run_time timeout =
     (case loads_partial_json ip stdout (Some PyDict) of
        None \<Rightarrow> None
      | Some (Inl e) \<Rightarrow> Some (Inl e)
      | Some (Inr (test_results, malformed)) \<Rightarrow>
          Some (Inr \<lparr>r_file_name = file_name,
                     r_time = run_time,
                     r_timeout = timeout,
                     r_tests = test_results,
                     r_stderr = (if truthy stderr then Some stderr else None),
                     r_malformed = (if malformed then Some stdout else None)\<rparr>))"

section \<open>Queue telemetry\<close>

text \<open>
  The hash \<^verbatim>\<open>config.POP_HASH\<close> of the store. A field holds the text of a number:
  \<^verbatim>\<open>hincrby\<close> and \<^verbatim>\<open>hset(..., 0)\<close> write an integer, \<^verbatim>\<open>hset(..., now)\<close> the
  time, a float, here an exact rational. \<^verbatim>\<open>hget\<close> of a missing field is \<^verbatim>\<open>None\<close>.
\<close>

datatype hval = HInt int | HFloat rat

type_synonym pop_hash = "string \<Rightarrow> hval option"

text \<open>
  \<^verbatim>\<open>float(x)\<close> and \<^verbatim>\<open>int(x)\<close> on what \<^verbatim>\<open>hget\<close> returned: \<^verbatim>\<open>TypeError\<close> on
  \<^verbatim>\<open>None\<close>; \<^verbatim>\<open>int\<close> of the text of a float is a \<^verbatim>\<open>ValueError\<close>.
\<close>

definition py_float :: "hval option \<Rightarrow> exn + rat" where
  "py_float x =
     (case x of
        None \<Rightarrow> Inl TypeError
      | Some (HInt n) \<Rightarrow> Inr (of_int n)
      | Some (HFloat q) \<Rightarrow> Inr q)"

definition py_int :: "hval option \<Rightarrow> exn + int" where
  "py_int x =
     (case x of
        None \<Rightarrow> Inl TypeError
      | Some (HInt n) \<Rightarrow> Inr n
      | Some (HFloat q) \<Rightarrow> Inl ValueError)"

text \<open>
  \<^verbatim>\<open>hsetnx\<close> of the start, \<^verbatim>\<open>hset\<close> of the last pop, \<^verbatim>\<open>hincrby\<close> of the count
  (the store refuses to increment a field that is not an integer).
\<close>

definition update_pop_interval_stat :: "string \<Rightarrow> rat \<Rightarrow> pop_hash \<Rightarrow> exn + pop_hash" where
  "update_pop_interval_stat queue_name now h =
     (let h1 = (case h (queue_name @ ''_start'') of
                  None \<Rightarrow> h(queue_name @ ''_start'' \<mapsto> HFloat now)
                | Some v \<Rightarrow> h);
          h2 = h1(queue_name @ ''_last'' \<mapsto> HFloat now)
      in case h2 (queue_name @ ''_count'') of
           None \<Rightarrow> Inr (h2(queue_name @ ''_count'' \<mapsto> HInt 1))
         | Some (HInt n) \<Rightarrow> Inr (h2(queue_name @ ''_count'' \<mapsto> HInt (n + 1)))
         | Some (HFloat q) \<Rightarrow> Inl ResponseError)"

definition clear_pop_interval_stat :: "string \<Rightarrow> pop_hash \<Rightarrow> pop_hash" where
  "clear_pop_interval_stat queue_name h =
     (h(queue_name @ ''_start'' := None))
       (queue_name @ ''_last'' \<mapsto> HInt 0, queue_name @ ''_count'' \<mapsto> HInt 0)"

text \<open>As in the source, \<open>last\<close> is read from the field \<^verbatim>\<open>'{}_count'\<close>.\<close>

definition get_pop_interval_stat ::
  "string \<Rightarrow> pop_hash \<Rightarrow> hval option \<times> hval option \<times> hval option" where
  "get_pop_interval_stat queue_name h =
     (let start = h (queue_name @ ''_start'');
          last = h (queue_name @ ''_count'');
          count = h (queue_name @ ''_count'')
      in (start, last, count))"

text \<open>
  The three conversions stand in one \<^verbatim>\<open>try\<close> whose handler catches \<^verbatim>\<open>TypeError\<close>
  only and returns \<^verbatim>\<open>None\<close>; \<open>Inr None\<close> is that return, \<open>Inl e\<close> an exception that
  escapes.
\<close>

definition on_type_error :: "exn \<Rightarrow> exn + rat option" where
  "on_type_error e = (if e = TypeError then Inr None else Inl e)"

definition get_avg_pop_interval :: "string \<Rightarrow> pop_hash \<Rightarrow> exn + rat option" where
  "get_avg_pop_interval queue_name h =
     (case get_pop_interval_stat queue_name h of
        (start0, last0, count0) \<Rightarrow>
          (case py_float start0 of
             Inl e \<Rightarrow> on_type_error e
           | Inr start \<Rightarrow>
               (case py_float last0 of
                  Inl e \<Rightarrow> on_type_error e
                | Inr last1 \<Rightarrow>
                    (case py_int count0 of
                       Inl e \<Rightarrow> on_type_error e
                     | Inr count1 \<Rightarrow>
                         (let count = count1 - 1
                          in Inr (Some (if count \<noteq> 0
                                        then (last1 - start) / of_int count
                                        else 0)))))))"

section \<open>Running the test scripts\<close>

text \<open>
  The interpreter with its limits is a parameter of the model, and so is what the
  operating system does for one script: \<open>format_cmd\<close> is \<^verbatim>\<open>cmd.format(file_name)\<close>, \<open>popen\<close> is \<^verbatim>\<open>subprocess.Popen\<close> with
  \<^verbatim>\<open>cwd=tests_path\<close>; either raises or succeeds. A started process is described by
  what \<^verbatim>\<open>communicate\<close> will see: after how many seconds it ends by itself (\<open>None\<close>:
  never) and the bytes its two pipes deliver.
\<close>

record process =
  p_pid :: nat
  p_exits_after :: "nat option"
  p_stdout :: string
  p_stderr :: string

record shell =
  format_cmd :: "string \<Rightarrow> string \<Rightarrow> exn + string"
  popen :: "string \<Rightarrow> string \<Rightarrow> exn + process"

text \<open>
  \<^verbatim>\<open>proc.communicate(timeout=t)\<close>: with \<^verbatim>\<open>t = None\<close> it waits for the process to
  end, however long (\<open>Forever\<close> when it never ends); with a number it raises
  \<^verbatim>\<open>TimeoutExpired\<close> once \<open>t\<close> seconds have passed (\<open>Expired\<close>). The number kept is
  the seconds waited.
\<close>

datatype communicated = Finished pydata pydata nat | Expired nat | Forever

definition communicate :: "process \<Rightarrow> nat option \<Rightarrow> communicated" where
  "communicate proc timeout =
     (case timeout of
        None \<Rightarrow>
          (case p_exits_after proc of
             None \<Rightarrow> Forever
           | Some d \<Rightarrow> Finished (Bytes (p_stdout proc)) (Bytes (p_stderr proc)) d)
      | Some t \<Rightarrow>
          (case p_exits_after proc of
             None \<Rightarrow> Expired t
           | Some d \<Rightarrow>
               if d \<le> t then Finished (Bytes (p_stdout proc)) (Bytes (p_stderr proc)) d
               else Expired t))"

text \<open>
  The local variables of one round of the loop, and the process groups that were sent
  \<^verbatim>\<open>SIGKILL\<close>. \<open>v_elapsed\<close> is the wall-clock time in milliseconds that the
  \<^verbatim>\<open>finally\<close> block will compute.
\<close>

record script_vars =
  v_out :: pydata
  v_err :: pydata
  v_timeout :: "nat option"
  v_elapsed :: nat
  v_killed :: "nat list"

text \<open>
  The body of the outer \<^verbatim>\<open>try\<close> (lines 311 to 320), with the inner handler for
  \<^verbatim>\<open>TimeoutExpired\<close>: the process is its own session leader
  (\<^verbatim>\<open>start_new_session=True\<close>), so its group is its pid; the group is killed, the
  pipes are drained and \<^verbatim>\<open>timeout = timeout\<close> leaves the variable as it is. The
  result is \<open>None\<close> when the body never returns, otherwise the exception raised, if any,
  and the variables.
\<close>

definition try_body ::
  "shell \<Rightarrow> string \<Rightarrow> string \<Rightarrow> string \<Rightarrow> script_vars \<Rightarrow> (exn option \<times> script_vars) option" where
  "try_body sh cmd file_name tests_path vars =
     (case format_cmd sh cmd file_name of
        Inl e \<Rightarrow> Some (Some e, vars)
      | Inr args \<Rightarrow>
          (case popen sh args tests_path of
             Inl e \<Rightarrow> Some (Some e, vars)
           | Inr proc \<Rightarrow>
               (case communicate proc (v_timeout vars) of
                  Forever \<Rightarrow> None
                | Finished out err d \<Rightarrow>
                    Some (None, vars\<lparr>v_out := out, v_err := err, v_elapsed := 1000 * d\<rparr>)
                | Expired t \<Rightarrow>
                    (let pgrp = p_pid proc
                     in Some (None, vars\<lparr>v_killed := v_killed vars @ [pgrp],
                                          v_out := Bytes (p_stdout proc),
                                          v_err := Bytes (p_stderr proc),
                                          v_timeout := v_timeout vars,
                                          v_elapsed := 1000 * t\<rparr>)))))"

text \<open>
  \<^verbatim>\<open>e.message\<close>: only an exception object that carries the attribute has it; on any
  other the attribute access raises \<^verbatim>\<open>AttributeError\<close>.
\<close>

definition exn_message :: "exn \<Rightarrow> exn + unicode" where
  "exn_message e = (case e of UserError m \<Rightarrow> Inr m | _ \<Rightarrow> Inl AttributeError)"

definition py_add :: "pydata \<Rightarrow> pydata \<Rightarrow> exn + pydata" where
  "py_add a b =
     (case (a, b) of
        (Str x, Str y) \<Rightarrow> Inr (Str (x @ y))
      | (Bytes x, Bytes y) \<Rightarrow> Inr (Bytes (x @ y))
      | _ \<Rightarrow> Inl TypeError)"

text \<open>
  The handler \<^verbatim>\<open>except Exception as e: err += '\n\n{}'.format(e.message)\<close>. An
  exception raised inside the handler is pending when the \<^verbatim>\<open>finally\<close> block runs.
\<close>

definition except_handler :: "exn \<Rightarrow> script_vars \<Rightarrow> exn option \<times> script_vars" where
  "except_handler e vars =
     (case exn_message e of
        Inl e' \<Rightarrow> (Some e', vars)
      | Inr m \<Rightarrow>
          (case py_add (v_err vars) (Str ([cp CHR 0x0A, cp CHR 0x0A] @ m)) of
             Inl e' \<Rightarrow> (Some e', vars)
           | Inr err \<Rightarrow> (None, vars\<lparr>v_err := err\<rparr>)))"

text \<open>
  One round of the loop. Line 309, \<^verbatim>\<open>timeout = None\<close>, overwrites the timeout that
  the loop took from \<^verbatim>\<open>test_scripts.items()\<close>. The \<^verbatim>\<open>finally\<close> block builds the
  result and appends it; an exception of its own replaces a pending one, and a pending
  one leaves the function after the block. \<open>Inr\<close> carries the result appended and the
  process groups killed.
\<close>

definition run_script ::
  "interpreter \<Rightarrow> shell \<Rightarrow> string \<Rightarrow> string \<Rightarrow> string \<Rightarrow> nat option \<Rightarrow>
     (exn + execution_result \<times> nat list) option" where
  "run_script ip sh cmd tests_path file_name timeout =
     (let vars0 = \<lparr>v_out = Str [], v_err = Str [], v_timeout = None, v_elapsed = 0, v_killed = []\<rparr>
      in case try_body sh cmd file_name tests_path vars0 of
           None \<Rightarrow> None
         | Some (raised, vars1) \<Rightarrow>
             (case (case raised of None \<Rightarrow> (None, vars1) | Some e \<Rightarrow> except_handler e vars1) of
                (pending, vars2) \<Rightarrow>
                  (case create_test_script_result ip file_name (v_out vars2) (v_err vars2)
                          (v_elapsed vars2) (v_timeout vars2) of
                     None \<Rightarrow> None
                   | Some (Inl e') \<Rightarrow> Some (Inl e')
                   | Some (Inr res) \<Rightarrow>
                       (case pending of
                          None \<Rightarrow> Some (Inr (res, v_killed vars2))
                        | Some e \<Rightarrow> Some (Inl e)))))"

text \<open>
  The \<^verbatim>\<open>for\<close> loop over \<^verbatim>\<open>test_scripts.items()\<close>, a list of pairs in the order of
  the mapping. Beside the results the model returns the process groups killed.
\<close>

fun run_loop ::
  "interpreter \<Rightarrow> shell \<Rightarrow> string \<Rightarrow> string \<Rightarrow> (string \<times> nat option) list \<Rightarrow>
     execution_result list \<Rightarrow> nat list \<Rightarrow> (exn + execution_result list \<times> nat list) option" where
  "run_loop ip sh cmd tests_path [] results killed = Some (Inr (results, killed))"
| "run_loop ip sh cmd tests_path ((file_name, timeout) # rest) results killed =
     (case run_script ip sh cmd tests_path file_name timeout of
        None \<Rightarrow> None
      | Some (Inl e) \<Rightarrow> Some (Inl e)
      | Some (Inr (res, k)) \<Rightarrow>
          run_loop ip sh cmd tests_path rest (results @ [res]) (killed @ k))"

definition run_test_scripts ::
  "interpreter \<Rightarrow> shell \<Rightarrow> string \<Rightarrow> (string \<times> nat option) list \<Rightarrow> string \<Rightarrow>
     (exn + execution_result list \<times> nat list) option" where
  "run_test_scripts ip sh cmd test_scripts tests_path =
     run_loop ip sh cmd tests_path test_scripts [] []"

section \<open>The shared world: store, file system, descriptors and locks\<close>

text \<open>
  The functions below act on the coordination store, the file system and the
  descriptor table of the worker. Their effects are explicit: each takes the world and
  returns the new one with its outcome. An outcome is a return, an exception, or
  \<open>Blocks\<close>: the call waits for something that, in this world, never comes.
\<close>

datatype 'a outcome = Returns 'a | Raises exn | Blocks

text \<open>
  A directory of interest (the submitted files, a version of the test scripts, a
  working directory) is kept by its path with the entries \<^verbatim>\<open>os.walk\<close> yields below
  it, in that order, each a kind and a path relative to the directory. The
  directories named by the functions are not nested in one another; the content of a
  file plays no part.
\<close>

datatype kind = Directory | File

type_synonym entry = "kind \<times> string list"

text \<open>
  The calls that change the world are recorded in \<open>events\<close>, in the order in which
  they take effect.
\<close>

datatype event =
    HSet string string
  | Opened nat string
  | Locked nat bool
  | Rmtree string
  | Unlocked nat
  | Closed nat

record world =
  user_list :: "string list"
  script_hash :: "string \<Rightarrow> string option"
  dirs :: "string \<Rightarrow> entry list option"
  open_fds :: "(nat \<times> string) list"
  flocks :: "(nat \<times> string \<times> bool) list"
  events :: "event list"

subsection \<open>\<^verbatim>\<open>tester_user\<close>\<close>

text \<open>
  \<^verbatim>\<open>blpop\<close> takes the first identity of \<^verbatim>\<open>config.USER_LIST\<close> and waits while the
  list is empty; \<^verbatim>\<open>rpush\<close> appends at the end. \<open>loads\<close> stands for
  \<^verbatim>\<open>json.loads(user_data.decode('utf-8'))\<close>, which is evaluated inside the \<^verbatim>\<open>try\<close>.
  \<open>body\<close> is the block of the \<^verbatim>\<open>with\<close> statement: the context manager throws an
  exception of the block into the generator at its \<^verbatim>\<open>yield\<close>, where the
  \<^verbatim>\<open>finally\<close> clause runs before the exception goes on.
\<close>

definition rpush :: "string \<Rightarrow> world \<Rightarrow> world" where
  "rpush user_data w = w\<lparr>user_list := user_list w @ [user_data]\<rparr>"

definition tester_user ::
  "(string \<Rightarrow> exn + 'u) \<Rightarrow> ('u \<Rightarrow> world \<Rightarrow> 'a outcome \<times> world) \<Rightarrow> world \<Rightarrow> 'a outcome \<times> world" where
  "tester_user loads body w =
     (case user_list w of
        [] \<Rightarrow> (Blocks, w)
      | user_data # rest \<Rightarrow>
          (let w1 = w\<lparr>user_list := rest\<rparr>
           in case loads user_data of
                Inl e \<Rightarrow> (Raises e, rpush user_data w1)
              | Inr u \<Rightarrow>
                  (case body u w1 of
                     (Blocks, w2) \<Rightarrow> (Blocks, w2)
                   | (Returns x, w2) \<Rightarrow> (Returns x, rpush user_data w2)
                   | (Raises e, w2) \<Rightarrow> (Raises e, rpush user_data w2))))"

text \<open>
  A run of acquire/release pairs, one after the other, whatever each block returns or
  raises (the caller of \<^verbatim>\<open>run_test\<close> goes on to the next job).
\<close>

fun acquire_release_pairs ::
  "(string \<Rightarrow> exn + 'u) \<Rightarrow> ('u \<Rightarrow> world \<Rightarrow> 'a outcome \<times> world) list \<Rightarrow> world \<Rightarrow> world" where
  "acquire_release_pairs loads [] w = w"
| "acquire_release_pairs loads (body # bodies) w =
     acquire_release_pairs loads bodies (snd (tester_user loads body w))"

text \<open>A block that ends (by return or exception) and does not touch the pool itself.\<close>

definition leaves_pool :: "('u \<Rightarrow> world \<Rightarrow> 'a outcome \<times> world) \<Rightarrow> bool" where
  "leaves_pool body =
     (\<forall>u w. fst (body u w) \<noteq> Blocks \<and> user_list (snd (body u w)) = user_list w)"

subsection \<open>\<^verbatim>\<open>fd_open\<close> and \<^verbatim>\<open>fd_lock\<close>\<close>

text \<open>
  \<^verbatim>\<open>os.open\<close> of a directory: \<^verbatim>\<open>TypeError\<close> on \<^verbatim>\<open>None\<close>, \<^verbatim>\<open>FileNotFoundError\<close> when
  the path does not exist, otherwise a descriptor that is not in use (any one above
  those held; which one does not matter).
\<close>

definition fresh_fd :: "world \<Rightarrow> nat" where
  "fresh_fd w = Suc (fold max (map fst (open_fds w)) 2)"

definition os_open :: "string option \<Rightarrow> world \<Rightarrow> nat outcome \<times> world" where
  "os_open path w =
     (case path of
        None \<Rightarrow> (Raises TypeError, w)
      | Some p \<Rightarrow>
          (case dirs w p of
             None \<Rightarrow> (Raises FileNotFoundError, w)
           | Some t \<Rightarrow>
               (let fd = fresh_fd w
                in (Returns fd, w\<lparr>open_fds := open_fds w @ [(fd, p)],
                                  events := events w @ [Opened fd p]\<rparr>))))"

text \<open>Closing a descriptor also drops the lock held through it.\<close>

definition os_close :: "nat \<Rightarrow> world \<Rightarrow> unit outcome \<times> world" where
  "os_close fd w =
     (if map_of (open_fds w) fd = None then (Raises BadFileDescriptor, w)
      else (Returns (), w\<lparr>open_fds := filter (\<lambda>(f, p). f \<noteq> fd) (open_fds w),
                           flocks := filter (\<lambda>(f, p, x). f \<noteq> fd) (flocks w),
                           events := events w @ [Closed fd]\<rparr>))"

text \<open>
  The generator of \<^verbatim>\<open>fd_open\<close> is \<^verbatim>\<open>fd = os.open(...); yield fd; os.close(fd)\<close>, with
  no \<^verbatim>\<open>try\<close>: an exception of the block is thrown in at the \<^verbatim>\<open>yield\<close> and leaves
  the generator there, so \<^verbatim>\<open>os.close\<close> runs only when the block ends normally.
\<close>

definition fd_open ::
  "string option \<Rightarrow> (nat \<Rightarrow> world \<Rightarrow> 'a outcome \<times> world) \<Rightarrow> world \<Rightarrow> 'a outcome \<times> world" where
  "fd_open path body w =
     (case os_open path w of
        (Raises e, w1) \<Rightarrow> (Raises e, w1)
      | (Blocks, w1) \<Rightarrow> (Blocks, w1)
      | (Returns fd, w1) \<Rightarrow>
          (case body fd w1 of
             (Raises e, w2) \<Rightarrow> (Raises e, w2)
           | (Blocks, w2) \<Rightarrow> (Blocks, w2)
           | (Returns x, w2) \<Rightarrow>
               (case os_close fd w2 of
                  (Raises e, w3) \<Rightarrow> (Raises e, w3)
                | (Blocks, w3) \<Rightarrow> (Blocks, w3)
                | (Returns u, w3) \<Rightarrow> (Returns x, w3))))"

text \<open>
  \<^verbatim>\<open>fcntl.flock\<close>. While the call waits for the lock the other workers act on the
  world: \<open>others\<close> is what they have done by the time the lock is granted. A lock
  held through another descriptor of this worker on the same directory is never given
  up while this call waits, so a conflict with it blocks for good. A lock conflicts
  unless both are shared; \<^verbatim>\<open>flock\<close> on a descriptor that holds a lock converts it.
\<close>

definition flock :: "(world \<Rightarrow> world) \<Rightarrow> nat \<Rightarrow> bool \<Rightarrow> world \<Rightarrow> unit outcome \<times> world" where
  "flock others fd exclusive w0 =
     (let w = others w0
      in case map_of (open_fds w) fd of
           None \<Rightarrow> (Raises BadFileDescriptor, w)
         | Some p \<Rightarrow>
             if list_ex (\<lambda>(f, q, x). f \<noteq> fd \<and> q = p \<and> (exclusive \<or> x)) (flocks w)
             then (Blocks, w)
             else (Returns (), w\<lparr>flocks := filter (\<lambda>(f, q, x). f \<noteq> fd) (flocks w) @ [(fd, p, exclusive)],
                                  events := events w @ [Locked fd exclusive]\<rparr>))"

definition flock_un :: "nat \<Rightarrow> world \<Rightarrow> unit outcome \<times> world" where
  "flock_un fd w =
     (if map_of (open_fds w) fd = None then (Raises BadFileDescriptor, w)
      else (Returns (), w\<lparr>flocks := filter (\<lambda>(f, q, x). f \<noteq> fd) (flocks w),
                           events := events w @ [Unlocked fd]\<rparr>))"

text \<open>\<^verbatim>\<open>fd_lock\<close> has the same shape: \<^verbatim>\<open>flock; yield; flock(LOCK_UN)\<close>, no \<^verbatim>\<open>try\<close>.\<close>

definition fd_lock ::
  "(world \<Rightarrow> world) \<Rightarrow> nat \<Rightarrow> bool \<Rightarrow> (world \<Rightarrow> 'a outcome \<times> world) \<Rightarrow> world \<Rightarrow> 'a outcome \<times> world" where
  "fd_lock others file_descriptor exclusive body w =
     (case flock others file_descriptor exclusive w of
        (Raises e, w1) \<Rightarrow> (Raises e, w1)
      | (Blocks, w1) \<Rightarrow> (Blocks, w1)
      | (Returns u, w1) \<Rightarrow>
          (case body w1 of
             (Raises e, w2) \<Rightarrow> (Raises e, w2)
           | (Blocks, w2) \<Rightarrow> (Blocks, w2)
           | (Returns x, w2) \<Rightarrow>
               (case flock_un file_descriptor w2 of
                  (Raises e, w3) \<Rightarrow> (Raises e, w3)
                | (Blocks, w3) \<Rightarrow> (Blocks, w3)
                | (Returns u', w3) \<Rightarrow> (Returns x, w3))))"

section \<open>Versions of the test scripts\<close>

text \<open>
  The names of the source that begin with an underscore are written without it.
  \<^verbatim>\<open>config\<close> is not part of the sources: the two settings that make up
  \<^verbatim>\<open>TEST_SCRIPT_DIR\<close> are a parameter.
\<close>

record config =
  WORKING_DIR :: string
  TEST_SCRIPT_DIR_NAME :: string

text \<open>\<^verbatim>\<open>os.path.join\<close> of two paths (\<^verbatim>\<open>posixpath\<close>).\<close>

definition path_join :: "string \<Rightarrow> string \<Rightarrow> string" where
  "path_join a b =
     (if take 1 b = ''/'' then b
      else if a = [] \<or> last a = CHR ''/'' then a @ b
      else a @ ''/'' @ b)"

definition TEST_SCRIPT_DIR :: "config \<Rightarrow> string" where
  "TEST_SCRIPT_DIR cfg = path_join (WORKING_DIR cfg) (TEST_SCRIPT_DIR_NAME cfg)"

definition clean_dir_name :: "string \<Rightarrow> string" where
  "clean_dir_name name = map (\<lambda>c. if c = CHR ''/'' then CHR ''_'' else c) name"

definition get_test_script_key :: "string \<Rightarrow> string \<Rightarrow> string" where
  "get_test_script_key markus_address assignment_id =
     (let clean_markus_address = clean_dir_name markus_address
      in clean_markus_address @ ''_'' @ assignment_id)"

text \<open>
  \<^verbatim>\<open>_test_script_directory\<close>: \<^verbatim>\<open>hset\<close> when \<^verbatim>\<open>set_to\<close> is given, then \<^verbatim>\<open>hget\<close>.
\<close>

definition test_script_directory ::
  "string \<Rightarrow> string \<Rightarrow> string option \<Rightarrow> world \<Rightarrow> string option \<times> world" where
  "test_script_directory markus_address assignment_id set_to w =
     (let key = get_test_script_key markus_address assignment_id;
          w1 = (case set_to of
                  None \<Rightarrow> w
                | Some v \<Rightarrow> w\<lparr>script_hash := (script_hash w)(key \<mapsto> v),
                               events := events w @ [HSet key v]\<rparr>)
      in (script_hash w1 key, w1))"

text \<open>\<^verbatim>\<open>os.walk\<close> yields nothing for a directory that does not exist.\<close>

definition recursive_iglob :: "string \<Rightarrow> world \<Rightarrow> entry list" where
  "recursive_iglob root_dir w = (case dirs w root_dir of None \<Rightarrow> [] | Some es \<Rightarrow> es)"

text \<open>
  \<^verbatim>\<open>os.makedirs(target, exist_ok=True)\<close> for the target \<open>rel\<close> below \<open>dst\<close>: every
  directory on the way that is missing is made, \<open>dst\<close> first; a file in the way is an
  error.
\<close>

fun mkdir_chain :: "string list list \<Rightarrow> string list \<Rightarrow> entry list \<Rightarrow> exn option \<times> entry list" where
  "mkdir_chain [] rel t = (None, t)"
| "mkdir_chain (q # qs) rel t =
     (if (File, q) \<in> set t
      then (Some (if q = rel then FileExistsError else NotADirectoryError), t)
      else mkdir_chain qs rel (if (Directory, q) \<in> set t then t else t @ [(Directory, q)]))"

definition makedirs :: "string \<Rightarrow> string list \<Rightarrow> world \<Rightarrow> unit outcome \<times> world" where
  "makedirs dst rel w =
     (let t = (case dirs w dst of None \<Rightarrow> [] | Some es \<Rightarrow> es)
      in case mkdir_chain (map (\<lambda>n. take n rel) [1..<Suc (length rel)]) rel t of
           (None, t') \<Rightarrow> (Returns (), w\<lparr>dirs := (dirs w)(dst \<mapsto> t')\<rparr>)
         | (Some e, t') \<Rightarrow> (Raises e, w\<lparr>dirs := (dirs w)(dst \<mapsto> t')\<rparr>))"

text \<open>
  \<^verbatim>\<open>shutil.copy2(file, target)\<close> for the target \<open>rel\<close> below \<open>dst\<close>: the directory
  that is to hold the file must exist; a target that is a directory receives the file
  under its own name.
\<close>

definition put_file :: "string list \<Rightarrow> entry list \<Rightarrow> exn + entry list" where
  "put_file target t =
     (if (Directory, target) \<in> set t then Inl IsADirectoryError
      else if (File, target) \<in> set t then Inr t
      else Inr (t @ [(File, target)]))"

definition copy2 :: "string \<Rightarrow> string list \<Rightarrow> world \<Rightarrow> unit outcome \<times> world" where
  "copy2 dst rel w =
     (case dirs w dst of
        None \<Rightarrow> (Raises FileNotFoundError, w)
      | Some t \<Rightarrow>
          if rel = [] then (Raises IsADirectoryError, w)
          else if butlast rel \<noteq> [] \<and> (Directory, butlast rel) \<notin> set t then
            (Raises (if (File, butlast rel) \<in> set t then NotADirectoryError
                     else FileNotFoundError), w)
          else
            (case put_file (if (Directory, rel) \<in> set t then rel @ [last rel] else rel) t of
               Inl e \<Rightarrow> (Raises e, w)
             | Inr t' \<Rightarrow> (Returns (), w\<lparr>dirs := (dirs w)(dst \<mapsto> t')\<rparr>)))"

text \<open>\<^verbatim>\<open>_copy_tree\<close>: the loop over \<^verbatim>\<open>_recursive_iglob(src)\<close>.\<close>

fun copy_entries :: "string \<Rightarrow> entry list \<Rightarrow> world \<Rightarrow> unit outcome \<times> world" where
  "copy_entries dst [] w = (Returns (), w)"
| "copy_entries dst ((fd, rel) # es) w =
     (case (if fd = Directory then makedirs dst rel w else copy2 dst rel w) of
        (Returns u, w1) \<Rightarrow> copy_entries dst es w1
      | (Raises e, w1) \<Rightarrow> (Raises e, w1)
      | (Blocks, w1) \<Rightarrow> (Blocks, w1))"

definition copy_tree :: "string \<Rightarrow> string \<Rightarrow> world \<Rightarrow> unit outcome \<times> world" where
  "copy_tree src dst w = copy_entries dst (recursive_iglob src w) w"

text \<open>
  \<^verbatim>\<open>shutil.rmtree(path, onerror=...)\<close>: a path that does not exist is reported to
  \<open>onerror\<close> as a \<^verbatim>\<open>FileNotFoundError\<close>, and \<^verbatim>\<open>rmtree\<close> returns if the handler
  does. \<^verbatim>\<open>_ignore_missing_dir_error\<close> returns on that error and raises any other.
\<close>

definition ignore_missing_dir_error :: "exn \<Rightarrow> exn + unit" where
  "ignore_missing_dir_error err_inst =
     (if err_inst = FileNotFoundError then Inr () else Inl err_inst)"

definition rmtree :: "string option \<Rightarrow> (exn \<Rightarrow> exn + unit) \<Rightarrow> world \<Rightarrow> unit outcome \<times> world" where
  "rmtree path onerror w =
     (case path of
        None \<Rightarrow> (Raises TypeError, w)
      | Some p \<Rightarrow>
          (let w1 = w\<lparr>events := events w @ [Rmtree p]\<rparr>
           in case dirs w1 p of
                None \<Rightarrow>
                  (case onerror FileNotFoundError of
                     Inl e \<Rightarrow> (Raises e, w1)
                   | Inr u \<Rightarrow> (Returns (), w1))
              | Some t \<Rightarrow> (Returns (), w1\<lparr>dirs := (dirs w1)(p := None)\<rparr>)))"

text \<open>\<^verbatim>\<open>str\<close> of a natural number, for \<^verbatim>\<open>int(time.time())\<close>.\<close>

fun str_of_nat :: "nat \<Rightarrow> string" where
  "str_of_nat n =
     (if n < 10 then [''0123456789'' ! n]
      else str_of_nat (n div 10) @ [''0123456789'' ! (n mod 10)])"

definition new_script_dir :: "config \<Rightarrow> nat \<Rightarrow> string \<Rightarrow> string \<Rightarrow> string" where
  "new_script_dir cfg now assignment_id markus_address =
     (let test_script_dir_name = ''test_scripts_'' @ str_of_nat now;
          clean_markus_address = clean_dir_name markus_address
      in path_join (path_join (path_join (TEST_SCRIPT_DIR cfg) clean_markus_address)
                      assignment_id) test_script_dir_name)"

text \<open>
  \<^verbatim>\<open>update_test_scripts\<close> (the body under the \<^verbatim>\<open>clean_after\<close> decorator, which
  afterwards resets the pop statistics of the empty queues and touches nothing that is
  modelled here). \<open>now\<close> is \<^verbatim>\<open>int(time.time())\<close>; \<open>others\<close> is what the other workers
  do while this one waits for its lock.
\<close>

definition update_test_scripts ::
  "config \<Rightarrow> (world \<Rightarrow> world) \<Rightarrow> nat \<Rightarrow> string \<Rightarrow> string \<Rightarrow> string \<Rightarrow> world \<Rightarrow> unit outcome \<times> world" where
  "update_test_scripts cfg others now files_path assignment_id markus_address w =
     (let new_dir = new_script_dir cfg now assignment_id markus_address
      in case copy_tree files_path new_dir w of
           (Raises e, w1) \<Rightarrow> (Raises e, w1)
         | (Blocks, w1) \<Rightarrow> (Blocks, w1)
         | (Returns u, w1) \<Rightarrow>
             (case test_script_directory markus_address assignment_id None w1 of
                (old_test_script_dir, w2) \<Rightarrow>
                  (case test_script_directory markus_address assignment_id (Some new_dir) w2 of
                     (current, w3) \<Rightarrow>
                       fd_open old_test_script_dir
                         (\<lambda>fd. fd_lock others fd True
                            (rmtree old_test_script_dir ignore_missing_dir_error))
                         w3)))"

text \<open>
  A small deployment used in the examples below: the scripts of assignment \<open>1\<close> of the
  service \<open>m\<close> are at version \<open>test_scripts_50\<close>, and \<^verbatim>\<open>/new\<close> holds the files of
  an update.
\<close>

definition example_config :: config where
  "example_config = \<lparr>WORKING_DIR = ''/w'', TEST_SCRIPT_DIR_NAME = ''scripts''\<rparr>"

definition example_world :: world where
  "example_world =
     \<lparr>user_list = [],
      script_hash = [''m_1'' \<mapsto> ''/w/scripts/m/1/test_scripts_50''],
      dirs = [''/new'' \<mapsto> [(Directory, [''lib'']), (File, [''t.py''])],
              ''/w/scripts/m/1/test_scripts_50'' \<mapsto> [(File, [''t.py''])]],
      open_fds = [], flocks = [], events = []\<rparr>"

section \<open>Properties of the decoder\<close>

lemma length_skip_ws: "length (skip_ws s) \<le> length s"
  by (simp add: skip_ws_def length_dropWhile_le)

lemma skip_ws_Cons_shorter: "skip_ws s = d # r \<Longrightarrow> length r < length s"
  using length_skip_ws [of s] by simp

lemma scanstring_shorter: "scanstring s acc = Some (u, r) \<Longrightarrow> length r < length s"
proof (induction s acc rule: scanstring.induct)
  case (1 acc)
  then show ?case by simp
next
  case (2 c s acc)
  show ?case
  proof (cases "c = cp CHR 0x22")
    case True
    with "2.prems" show ?thesis by simp
  next
    case nq: False
    show ?thesis
    proof (cases "c = cp CHR 0x5C")
      case bs: True
      show ?thesis
      proof (cases s)
        case Nil
        with "2.prems" nq bs show ?thesis by simp
      next
        case (Cons e s')
        show ?thesis
        proof (cases "e = cp CHR ''u''")
          case eu: True
          from "2.prems" nq bs Cons eu obtain x where h: "hex4 s' = Some x"
            by (cases "hex4 s'") simp_all
          show ?thesis
          proof (cases "surrogate_pair x (drop 4 s')")
            case None
            with "2.prems" nq bs Cons eu h have
              rec: "scanstring (drop 4 s') (acc @ [x]) = Some (u, r)"
              by simp
            have "length r < length (drop 4 s')"
              using "2.IH"(1) [OF nq bs Cons eu h None rec] .
            then show ?thesis using Cons by simp
          next
            case (Some pair)
            with "2.prems" nq bs Cons eu h have
              rec: "scanstring (drop 10 s') (acc @ [pair]) = Some (u, r)"
              by simp
            have "length r < length (drop 10 s')"
              using "2.IH"(2) [OF nq bs Cons eu h Some rec] .
            then show ?thesis using Cons by simp
          qed
        next
          case neu: False
          from "2.prems" nq bs Cons neu obtain ch where
            h: "backslash e = Some ch" and
            rec: "scanstring s' (acc @ [ch]) = Some (u, r)"
            by (simp split: option.splits)
          have "length r < length s'"
            using "2.IH"(3) [OF nq bs Cons neu h rec] .
          then show ?thesis using Cons by simp
        qed
      qed
    next
      case nbs: False
      show ?thesis
      proof (cases "c < 0x20")
        case True
        with "2.prems" nq nbs show ?thesis by simp
      next
        case nctl: False
        from "2.prems" nq nbs nctl have rec: "scanstring s (acc @ [c]) = Some (u, r)"
          by simp
        have "length r < length s"
          using "2.IH"(4) [OF nq nbs nctl rec] .
        then show ?thesis by simp
      qed
    qed
  qed
qed

termination scan_once
  apply (relation "measure (\<lambda>x. case x of
            Inl (m, d, s) \<Rightarrow> 2 * length s
          | Inr (Inl (m, d, acc, s)) \<Rightarrow> 2 * length s + 1
          | Inr (Inr (m, d, acc, s)) \<Rightarrow> 2 * length s + 1)")
  subgoal by simp
  subgoal for m room c r room' x21 x22
    using skip_ws_Cons_shorter [of r x21 x22] by simp
  subgoal for m room c r room' x21 x22
    using skip_ws_Cons_shorter [of r x21 x22] by simp
  subgoal by simp
  subgoal for m room acc s b x y x21 x22
    using skip_ws_Cons_shorter [of y x21 x22] length_skip_ws [of x22] by simp
  subgoal for m room acc s x2 x y x21 x22
    using scanstring_shorter [of s "[]" x y] skip_ws_Cons_shorter [of y x21 x22]
      length_skip_ws [of x22]
    by simp
  subgoal for m room acc s x2 x y x21 x22 b xa ya x21a x22a x21b x22b
    using scanstring_shorter [of s "[]" x y] skip_ws_Cons_shorter [of y x21 x22]
      length_skip_ws [of x22] skip_ws_Cons_shorter [of ya x21a x22a]
      skip_ws_Cons_shorter [of x22a x21b x22b]
    by simp
  done

lemma digits1_shorter: "digits1 s = Some (ds, r) \<Longrightarrow> length r \<le> length s"
  using length_dropWhile_le [of is_digit s]
  by (simp add: digits1_def split: if_splits)

lemma match_digits_shorter: "match_digits s = Some (ds, r) \<Longrightarrow> length r < length s"
proof (cases s)
  case Nil
  assume "match_digits s = Some (ds, r)"
  with Nil show ?thesis by (simp add: match_digits_def)
next
  case (Cons d t)
  assume "match_digits s = Some (ds, r)"
  with Cons have "r = t \<or> r = dropWhile is_digit t"
    by (simp add: match_digits_def split: if_splits)
  with Cons show ?thesis
    using length_dropWhile_le [of is_digit t] by auto
qed

lemma match_integer_shorter: "match_integer s = Some (i, r) \<Longrightarrow> length r < length s"
proof (cases s)
  case Nil
  assume "match_integer s = Some (i, r)"
  with Nil show ?thesis by (simp add: match_integer_def)
next
  case (Cons c t)
  assume a: "match_integer s = Some (i, r)"
  show ?thesis
  proof (cases "c = cp CHR ''-''")
    case True
    with a Cons obtain ds where "match_digits t = Some (ds, r)"
      by (auto simp: match_integer_def split: option.splits)
    from match_digits_shorter [OF this] Cons show ?thesis by simp
  next
    case False
    with a Cons have "match_digits s = Some (i, r)"
      by (simp add: match_integer_def)
    from match_digits_shorter [OF this] show ?thesis .
  qed
qed

lemma match_frac_shorter: "match_frac s = (f, r) \<Longrightarrow> length r \<le> length s"
proof (cases s)
  case Nil
  assume "match_frac s = (f, r)"
  with Nil show ?thesis by (simp add: match_frac_def)
next
  case (Cons c t)
  assume a: "match_frac s = (f, r)"
  show ?thesis
  proof (cases "c = cp CHR ''.''")
    case True
    show ?thesis
    proof (cases "digits1 t")
      case None
      with a Cons True show ?thesis by (simp add: match_frac_def)
    next
      case (Some p)
      obtain ds r' where p: "p = (ds, r')" by (cases p)
      with a Cons True Some have "r = r'" by (simp add: match_frac_def)
      with digits1_shorter [of t ds r'] Some p Cons show ?thesis by simp
    qed
  next
    case False
    with a Cons show ?thesis by (simp add: match_frac_def)
  qed
qed

lemma match_exp_shorter: "match_exp s = (e, r) \<Longrightarrow> length r \<le> length s"
proof (cases s)
  case Nil
  assume "match_exp s = (e, r)"
  with Nil show ?thesis by (simp add: match_exp_def)
next
  case (Cons c t)
  assume a: "match_exp s = (e, r)"
  from a Cons have
    "r = s \<or> (\<exists>ds. digits1 t = Some (ds, r)) \<or> (\<exists>ds. digits1 (tl t) = Some (ds, r))"
    by (auto simp: match_exp_def split: if_splits list.splits option.splits)
  then show ?thesis
    using Cons digits1_shorter [of t _ r] digits1_shorter [of "tl t" _ r]
    by (cases t) auto
qed

lemma match_number_shorter:
  "match_number mx s = Inr (v, r) \<Longrightarrow> length r < length s"
proof -
  assume a: "match_number mx s = Inr (v, r)"
  then obtain i r1 where i: "match_integer s = Some (i, r1)"
    unfolding match_number_def by (cases "match_integer s") auto
  obtain f r2 where f: "match_frac r1 = (f, r2)" by (cases "match_frac r1")
  obtain e r3 where e: "match_exp r2 = (e, r3)" by (cases "match_exp r2")
  from a i f e have "r = r3"
    unfolding match_number_def by (simp split: if_splits sum.splits)
  with match_integer_shorter [OF i] match_frac_shorter [OF f] match_exp_shorter [OF e]
  show ?thesis by simp
qed

lemma take_eq_imp_length: "take n s = t \<Longrightarrow> length t = n \<Longrightarrow> n \<le> length s"
  by (metis length_take min.cobounded1 min_def nat_le_linear)

lemma drop_shorter: "take n s = t \<Longrightarrow> length t = n \<Longrightarrow> 0 < n \<Longrightarrow> length (drop n s) < length s"
  using take_eq_imp_length [of n s t] by simp

lemma scan_atom_shorter: "scan_atom mx s = Inr (v, r) \<Longrightarrow> length r < length s"
proof -
  assume a: "scan_atom mx s = Inr (v, r)"
  have q: "take 1 s = [cp CHR 0x22] \<Longrightarrow> scanstring (drop 1 s) [] = Some (u, r) \<Longrightarrow> length r < length s" for u
    using scanstring_shorter [of "drop 1 s" "[]" u r] by simp
  from a consider
      (str) u where "take 1 s = [cp CHR 0x22]" "scanstring (drop 1 s) [] = Some (u, r)"
    | (null) "take 4 s = ascii ''null''" "r = drop 4 s"
    | (true) "take 4 s = ascii ''true''" "r = drop 4 s"
    | (false) "take 5 s = ascii ''false''" "r = drop 5 s"
    | (nan) "take 3 s = ascii ''NaN''" "r = drop 3 s"
    | (inf) "take 8 s = ascii ''Infinity''" "r = drop 8 s"
    | (ninf) "take 9 s = ascii ''-Infinity''" "r = drop 9 s"
    | (num) "match_number mx s = Inr (v, r)"
    unfolding scan_atom_def
    by (auto split: if_splits option.splits)
  then show ?thesis
  proof cases
    case (str u) then show ?thesis using q by blast
  next
    case null then show ?thesis using drop_shorter [of 4 s "ascii ''null''"] by simp
  next
    case true then show ?thesis using drop_shorter [of 4 s "ascii ''true''"] by simp
  next
    case false then show ?thesis using drop_shorter [of 5 s "ascii ''false''"] by simp
  next
    case nan then show ?thesis using drop_shorter [of 3 s "ascii ''NaN''"] by simp
  next
    case inf then show ?thesis using drop_shorter [of 8 s "ascii ''Infinity''"] by simp
  next
    case ninf then show ?thesis using drop_shorter [of 9 s "ascii ''-Infinity''"] by simp
  next
    case num then show ?thesis by (rule match_number_shorter)
  qed
qed

declare parse_array.simps [simp del] parse_object.simps [simp del]

lemma scan_once_step:
  assumes "scan_once mx room (c # r0) = Inr (v, r)"
  shows "(\<exists>room' d r'. room = Suc room' \<and> skip_ws r0 = d # r'
            \<and> parse_object mx room' [] r' = Inr (v, r))
       \<or> (\<exists>d r'. skip_ws r0 = d # r' \<and> r = r')
       \<or> (\<exists>room'. room = Suc room' \<and> parse_array mx room' [] (skip_ws r0) = Inr (v, r))
       \<or> scan_atom mx (c # r0) = Inr (v, r)"
  using assms by (auto split: if_splits list.splits nat.splits)

lemma parse_array_step:
  assumes "parse_array mx room acc s = Inr (v, r)"
  shows "\<exists>v1 r1 d r'. scan_once mx room s = Inr (v1, r1) \<and> length r1 < length s
           \<and> skip_ws r1 = d # r'
           \<and> (r = r' \<or> parse_array mx room (acc @ [v1]) (skip_ws r') = Inr (v, r))"
  using assms
  by (subst (asm) parse_array.simps) (auto split: if_splits list.splits sum.splits)

lemma parse_object_step:
  assumes "parse_object mx room acc s = Inr (v, r)"
  shows "\<exists>k r0 c r1 v1 r2 d r3. scanstring s [] = Some (k, r0) \<and> skip_ws r0 = c # r1
           \<and> scan_once mx room (skip_ws r1) = Inr (v1, r2) \<and> length r2 < length (skip_ws r1)
           \<and> skip_ws r2 = d # r3
           \<and> (r = r3 \<or> (\<exists>q r4. skip_ws r3 = q # r4
                   \<and> parse_object mx room (acc @ [(k, v1)]) r4 = Inr (v, r)))"
  using assms
  by (subst (asm) parse_object.simps)
    (auto split: if_splits list.splits option.splits sum.splits)

lemma scan_shorter_all:
  "(\<forall>room v r. scan_once mx room s = Inr (v, r) \<longrightarrow> length r < length s)
   \<and> (\<forall>room acc v r. parse_array mx room acc s = Inr (v, r) \<longrightarrow> length r < length s)
   \<and> (\<forall>room acc v r. parse_object mx room acc s = Inr (v, r) \<longrightarrow> length r < length s)"
proof (induction s rule: length_induct)
  case (1 s)
  have so: "length r < length s" if a: "scan_once mx room s = Inr (v, r)" for room v r
  proof (cases s)
    case Nil
    with a show ?thesis by simp
  next
    case (Cons c r0)
    from scan_once_step [of mx room c r0 v r] a Cons consider
        (obj) room' d r' where "skip_ws r0 = d # r'" "parse_object mx room' [] r' = Inr (v, r)"
      | (empty) d r' where "skip_ws r0 = d # r'" "r = r'"
      | (arr) room' where "parse_array mx room' [] (skip_ws r0) = Inr (v, r)"
      | (atom) "scan_atom mx (c # r0) = Inr (v, r)"
      by blast
    then show ?thesis
    proof cases
      case obj
      have l: "length r' < length s"
        using skip_ws_Cons_shorter [OF obj(1)] Cons by simp
      with 1 obj(2) have "length r < length r'" by blast
      with l show ?thesis by simp
    next
      case empty
      then show ?thesis using skip_ws_Cons_shorter [OF empty(1)] Cons by simp
    next
      case arr
      have l: "length (skip_ws r0) < length s"
        using length_skip_ws [of r0] Cons by simp
      with 1 arr have "length r < length (skip_ws r0)" by blast
      with l show ?thesis by simp
    next
      case atom
      then show ?thesis using scan_atom_shorter Cons by blast
    qed
  qed
  have pa: "length r < length s" if a: "parse_array mx room acc s = Inr (v, r)"
    for room acc v r
  proof -
    from parse_array_step [OF a] obtain v1 r1 d r' where
      h: "scan_once mx room s = Inr (v1, r1)" "length r1 < length s" "skip_ws r1 = d # r'"
         "r = r' \<or> parse_array mx room (acc @ [v1]) (skip_ws r') = Inr (v, r)"
      by blast
    have l: "length r' < length s"
      using skip_ws_Cons_shorter [OF h(3)] h(2) by simp
    from h(4) show ?thesis
    proof
      assume "r = r'"
      with l show ?thesis by simp
    next
      assume b: "parse_array mx room (acc @ [v1]) (skip_ws r') = Inr (v, r)"
      have l2: "length (skip_ws r') < length s"
        using length_skip_ws [of r'] l by simp
      with 1 b have "length r < length (skip_ws r')" by blast
      with l2 show ?thesis by simp
    qed
  qed
  have po: "length r < length s" if a: "parse_object mx room acc s = Inr (v, r)"
    for room acc v r
  proof -
    from parse_object_step [OF a] obtain k r0 c r1 v1 r2 d r3 where
      h: "scanstring s [] = Some (k, r0)" "skip_ws r0 = c # r1"
         "scan_once mx room (skip_ws r1) = Inr (v1, r2)" "length r2 < length (skip_ws r1)"
         "skip_ws r2 = d # r3"
         "r = r3 \<or> (\<exists>q r4. skip_ws r3 = q # r4
             \<and> parse_object mx room (acc @ [(k, v1)]) r4 = Inr (v, r))"
      by blast
    have l: "length r3 < length s"
      using scanstring_shorter [OF h(1)] skip_ws_Cons_shorter [OF h(2)]
        length_skip_ws [of r1] h(4) skip_ws_Cons_shorter [OF h(5)]
      by simp
    from h(6) show ?thesis
    proof
      assume "r = r3"
      with l show ?thesis by simp
    next
      assume "\<exists>q r4. skip_ws r3 = q # r4
             \<and> parse_object mx room (acc @ [(k, v1)]) r4 = Inr (v, r)"
      then obtain q r4 where
        b: "skip_ws r3 = q # r4"
           "parse_object mx room (acc @ [(k, v1)]) r4 = Inr (v, r)"
        by blast
      have l2: "length r4 < length s"
        using skip_ws_Cons_shorter [OF b(1)] l by simp
      with 1 b(2) have "length r < length r4" by blast
      with l2 show ?thesis by simp
    qed
  qed
  from so pa po show ?case by blast
qed

lemma scan_once_shorter: "scan_once mx room s = Inr (v, r) \<Longrightarrow> length r < length s"
  using scan_shorter_all [of mx s] by blast

lemma digit_not_space: "is_digit c \<Longrightarrow> \<not> py_isspace c"
  by (auto simp: is_digit_def py_isspace_def)

lemma match_digits_first: "match_digits (c # t) = Some (ds, r) \<Longrightarrow> is_digit c"
  by (auto simp: match_digits_def is_digit_def split: if_splits)

lemma match_integer_first:
  "match_integer (c # t) = Some (i, r) \<Longrightarrow> c = cp CHR ''-'' \<or> is_digit c"
  using match_digits_first [of c t i r]
  by (auto simp: match_integer_def split: if_splits)

lemma match_number_first:
  "match_number mx (c # t) = Inr (v, r) \<Longrightarrow> c = cp CHR ''-'' \<or> is_digit c"
proof -
  assume a: "match_number mx (c # t) = Inr (v, r)"
  then obtain i r1 where "match_integer (c # t) = Some (i, r1)"
    unfolding match_number_def by (cases "match_integer (c # t)") auto
  then show ?thesis by (rule match_integer_first)
qed

lemma scan_atom_first: "scan_atom mx (c # t) = Inr (v, r) \<Longrightarrow> \<not> py_isspace c"
proof -
  assume a: "scan_atom mx (c # t) = Inr (v, r)"
  then consider "c = cp CHR 0x22" | "c = cp CHR ''n''" | "c = cp CHR ''t''" | "c = cp CHR ''f''"
    | "c = cp CHR ''N''" | "c = cp CHR ''I''" | "c = cp CHR ''-''"
    | "match_number mx (c # t) = Inr (v, r)"
    unfolding scan_atom_def by (auto split: if_splits)
  then show ?thesis
  proof cases
    case 8
    from match_number_first [OF this] show ?thesis
      using digit_not_space by (auto simp: py_isspace_def)
  qed (simp_all add: py_isspace_def)
qed

lemma scan_once_first: "scan_once mx room (c # t) = Inr (v, r) \<Longrightarrow> \<not> py_isspace c"
proof -
  assume a: "scan_once mx room (c # t) = Inr (v, r)"
  then consider "c = cp CHR ''{''" | "c = cp CHR ''[''" | "scan_atom mx (c # t) = Inr (v, r)"
    by (auto split: if_splits)
  then show ?thesis
  proof cases
    case 3
    then show ?thesis by (rule scan_atom_first)
  qed (simp_all add: py_isspace_def)
qed

lemma raw_decode_consumes:
  "raw_decode ip s = Inr (obj, ind) \<Longrightarrow> 0 < ind \<and> ind \<le> length s"
  using scan_once_shorter [of "int_max_str_digits ip" "recursion_room ip" s obj]
  by (auto simp: raw_decode_def split: sum.splits)

lemma raw_decode_first:
  "raw_decode ip s = Inr (obj, ind) \<Longrightarrow> \<exists>c t. s = c # t \<and> \<not> py_isspace c"
proof -
  assume a: "raw_decode ip s = Inr (obj, ind)"
  then obtain r where
    so: "scan_once (int_max_str_digits ip) (recursion_room ip) s = Inr (obj, r)"
    by (auto simp: raw_decode_def split: sum.splits)
  then obtain c t where s: "s = c # t" by (cases s) auto
  with so scan_once_first [of _ _ c t obj r] show ?thesis by blast
qed

lemma py_strip_nonempty: "\<not> py_isspace c \<Longrightarrow> py_strip (c # t) \<noteq> []"
proof -
  assume a: "\<not> py_isspace c"
  then have "dropWhile py_isspace (c # t) = c # t" by simp
  moreover have "dropWhile py_isspace (rev (c # t)) \<noteq> []"
    using a by (simp add: dropWhile_append)
  ultimately show ?thesis by (simp add: py_strip_def)
qed

lemma py_strip_single: "py_strip [c] \<noteq> [] \<longleftrightarrow> \<not> py_isspace c"
  by (simp add: py_strip_def)

section \<open>The exceptions of the decoder\<close>

lemma match_digits_length: "match_digits s = Some (ds, r) \<Longrightarrow> length ds \<le> length s"
proof (cases s)
  case Nil
  assume "match_digits s = Some (ds, r)"
  with Nil show ?thesis by (simp add: match_digits_def)
next
  case (Cons d t)
  assume "match_digits s = Some (ds, r)"
  with Cons have "ds = [d] \<or> ds = d # takeWhile is_digit t"
    by (auto simp: match_digits_def split: if_splits)
  with Cons show ?thesis
    using length_takeWhile_le [of is_digit t] by auto
qed

lemma match_integer_length: "match_integer s = Some (i, r) \<Longrightarrow> length i \<le> length s"
proof (cases s)
  case Nil
  assume "match_integer s = Some (i, r)"
  with Nil show ?thesis by (simp add: match_integer_def)
next
  case (Cons c t)
  assume a: "match_integer s = Some (i, r)"
  show ?thesis
  proof (cases "c = cp CHR ''-''")
    case True
    with a Cons obtain ds where "match_digits t = Some (ds, r)" "i = c # ds"
      by (auto simp: match_integer_def split: option.splits)
    with match_digits_length [of t ds r] Cons show ?thesis by simp
  next
    case False
    with a Cons have "match_digits s = Some (i, r)"
      by (simp add: match_integer_def)
    from match_digits_length [OF this] show ?thesis .
  qed
qed

lemma long_from_string_error:
  "long_from_string mx i = Inl e \<Longrightarrow>
   e = ValueError \<and> 0 < mx \<and> 640 < length i \<and> mx < length i"
  by (auto simp: long_from_string_def Let_def split: if_splits)

lemma match_number_error:
  assumes "match_number mx s = Inl e"
  shows "e = JSONDecodeError \<or> (e = ValueError \<and> 0 < mx \<and> 640 < length s \<and> mx < length s)"
proof (cases "match_integer s")
  case None
  with assms show ?thesis by (simp add: match_number_def)
next
  case (Some p)
  obtain i r1 where p: "p = (i, r1)" by (cases p)
  obtain f r2 where f: "match_frac r1 = (f, r2)" by (cases "match_frac r1")
  obtain x r3 where x: "match_exp r2 = (x, r3)" by (cases "match_exp r2")
  from assms Some p f x have "long_from_string mx i = Inl e"
    by (simp add: match_number_def split: if_splits sum.splits)
  from long_from_string_error [OF this] match_integer_length [of s i r1] Some p
  show ?thesis by simp
qed

lemma scan_atom_error:
  assumes "scan_atom mx s = Inl e"
  shows "e = JSONDecodeError \<or> (e = ValueError \<and> 0 < mx \<and> 640 < length s \<and> mx < length s)"
proof -
  from assms have "e = JSONDecodeError \<or> match_number mx s = Inl e"
    unfolding scan_atom_def by (auto split: if_splits option.splits)
  with match_number_error [of mx s e] show ?thesis by blast
qed

lemma scan_once_error_step:
  assumes "scan_once mx room (c # r0) = Inl e"
  shows "e = JSONDecodeError
       \<or> (e = RecursionError \<and> room = 0)
       \<or> (\<exists>room' d r'. room = Suc room' \<and> skip_ws r0 = d # r'
             \<and> parse_object mx room' [] r' = Inl e)
       \<or> (\<exists>room'. room = Suc room' \<and> parse_array mx room' [] (skip_ws r0) = Inl e)
       \<or> scan_atom mx (c # r0) = Inl e"
  using assms by (auto split: if_splits list.splits nat.splits)

lemma parse_array_error_step:
  assumes "parse_array mx room acc s = Inl e"
  shows "e = JSONDecodeError
       \<or> scan_once mx room s = Inl e
       \<or> (\<exists>v1 r1 d r'. scan_once mx room s = Inr (v1, r1) \<and> length r1 < length s
             \<and> skip_ws r1 = d # r'
             \<and> parse_array mx room (acc @ [v1]) (skip_ws r') = Inl e)"
  using assms
  by (subst (asm) parse_array.simps) (auto split: if_splits list.splits sum.splits)

lemma parse_object_error_step:
  assumes "parse_object mx room acc s = Inl e"
  shows "e = JSONDecodeError
       \<or> (\<exists>k r0 c r1. scanstring s [] = Some (k, r0) \<and> skip_ws r0 = c # r1
             \<and> (scan_once mx room (skip_ws r1) = Inl e
                \<or> (\<exists>v1 r2 d r3 q r4. scan_once mx room (skip_ws r1) = Inr (v1, r2)
                      \<and> length r2 < length (skip_ws r1) \<and> skip_ws r2 = d # r3
                      \<and> skip_ws r3 = q # r4
                      \<and> parse_object mx room (acc @ [(k, v1)]) r4 = Inl e)))"
  using assms
  by (subst (asm) parse_object.simps)
    (auto split: if_splits list.splits option.splits sum.splits)

lemma may_raise_mono: "may_raise mx room n e \<Longrightarrow> n \<le> n' \<Longrightarrow> may_raise mx room n' e"
  by (auto simp: may_raise_def)

lemma may_raise_Suc: "may_raise mx room n e \<Longrightarrow> n < n' \<Longrightarrow> may_raise mx (Suc room) n' e"
  by (auto simp: may_raise_def)

lemma scan_errors_all:
  "(\<forall>room e. scan_once mx room s = Inl e \<longrightarrow> may_raise mx room (length s) e)
   \<and> (\<forall>room acc e. parse_array mx room acc s = Inl e \<longrightarrow> may_raise mx room (length s) e)
   \<and> (\<forall>room acc e. parse_object mx room acc s = Inl e \<longrightarrow> may_raise mx room (length s) e)"
proof (induction s rule: length_induct)
  case (1 s)
  have so: "may_raise mx room (length s) e" if a: "scan_once mx room s = Inl e" for room e
  proof (cases s)
    case Nil
    with a show ?thesis by (simp add: may_raise_def)
  next
    case (Cons c r0)
    from scan_once_error_step [of mx room c r0 e] a Cons consider
        (json) "e = JSONDecodeError"
      | (deep) "e = RecursionError" "room = 0"
      | (obj) room' d r' where "room = Suc room'" "skip_ws r0 = d # r'"
          "parse_object mx room' [] r' = Inl e"
      | (arr) room' where "room = Suc room'" "parse_array mx room' [] (skip_ws r0) = Inl e"
      | (atom) "scan_atom mx (c # r0) = Inl e"
      by blast
    then show ?thesis
    proof cases
      case json
      then show ?thesis by (simp add: may_raise_def)
    next
      case deep
      with Cons show ?thesis by (simp add: may_raise_def)
    next
      case obj
      have l: "length r' < length s"
        using skip_ws_Cons_shorter [OF obj(2)] Cons by simp
      with 1 obj(3) have "may_raise mx room' (length r') e" by blast
      from may_raise_Suc [OF this l] obj(1) show ?thesis by simp
    next
      case arr
      have l: "length (skip_ws r0) < length s"
        using length_skip_ws [of r0] Cons by simp
      with 1 arr(2) have "may_raise mx room' (length (skip_ws r0)) e" by blast
      from may_raise_Suc [OF this l] arr(1) show ?thesis by simp
    next
      case atom
      from scan_atom_error [OF this] Cons show ?thesis by (auto simp: may_raise_def)
    qed
  qed
  have pa: "may_raise mx room (length s) e" if a: "parse_array mx room acc s = Inl e"
    for room acc e
  proof -
    from parse_array_error_step [OF a] consider
        (json) "e = JSONDecodeError"
      | (val) "scan_once mx room s = Inl e"
      | (rest) v1 r1 d r' where "length r1 < length s" "skip_ws r1 = d # r'"
          "parse_array mx room (acc @ [v1]) (skip_ws r') = Inl e"
      by blast
    then show ?thesis
    proof cases
      case json
      then show ?thesis by (simp add: may_raise_def)
    next
      case val
      then show ?thesis by (rule so)
    next
      case rest
      have l: "length (skip_ws r') < length s"
        using skip_ws_Cons_shorter [OF rest(2)] length_skip_ws [of r'] rest(1) by simp
      with 1 rest(3) have "may_raise mx room (length (skip_ws r')) e" by blast
      from may_raise_mono [OF this] l show ?thesis by simp
    qed
  qed
  have po: "may_raise mx room (length s) e" if a: "parse_object mx room acc s = Inl e"
    for room acc e
  proof -
    from parse_object_error_step [OF a] consider
        (json) "e = JSONDecodeError"
      | (val) k r0 c r1 where "scanstring s [] = Some (k, r0)" "skip_ws r0 = c # r1"
          "scan_once mx room (skip_ws r1) = Inl e"
      | (rest) k r0 c r1 v1 r2 d r3 q r4 where
          "scanstring s [] = Some (k, r0)" "skip_ws r0 = c # r1"
          "length r2 < length (skip_ws r1)" "skip_ws r2 = d # r3" "skip_ws r3 = q # r4"
          "parse_object mx room (acc @ [(k, v1)]) r4 = Inl e"
      by blast
    then show ?thesis
    proof cases
      case json
      then show ?thesis by (simp add: may_raise_def)
    next
      case val
      have l: "length (skip_ws r1) < length s"
        using scanstring_shorter [OF val(1)] skip_ws_Cons_shorter [OF val(2)]
          length_skip_ws [of r1]
        by simp
      with 1 val(3) have "may_raise mx room (length (skip_ws r1)) e" by blast
      from may_raise_mono [OF this] l show ?thesis by simp
    next
      case rest
      have l: "length r4 < length s"
        using scanstring_shorter [OF rest(1)] skip_ws_Cons_shorter [OF rest(2)]
          length_skip_ws [of r1] rest(3) skip_ws_Cons_shorter [OF rest(4)]
          skip_ws_Cons_shorter [OF rest(5)]
        by simp
      with 1 rest(6) have "may_raise mx room (length r4) e" by blast
      from may_raise_mono [OF this] l show ?thesis by simp
    qed
  qed
  from so pa po show ?case by blast
qed

lemma raw_decode_error:
  "raw_decode ip s = Inl e \<Longrightarrow>
   may_raise (int_max_str_digits ip) (recursion_room ip) (length s) e"
  using scan_errors_all [of "int_max_str_digits ip" s]
  by (auto simp: raw_decode_def split: sum.splits)

section \<open>The loop of \<^verbatim>\<open>loads_partial_json\<close>\<close>

lemma loads_loop_exit:
  "\<not> i < length s \<Longrightarrow> loads_loop ip s t i rs m = Some (Inr (rs, m))"
  by (subst loads_loop.simps) simp

lemma loads_loop_decoded:
  "i < length s \<Longrightarrow> raw_decode ip (drop i s) = Inr (obj, ind) \<Longrightarrow>
   loads_loop ip s t i rs m =
     loads_loop ip s t (i + ind)
       (if (case t of None \<Rightarrow> True | Some ty \<Rightarrow> isinstance obj ty) then rs @ [obj] else rs)
       (if py_strip (take ind (drop i s)) \<noteq> [] then True else m)"
  by (subst loads_loop.simps) simp

lemma loads_loop_skipped:
  "i < length s \<Longrightarrow> raw_decode ip (drop i s) = Inl JSONDecodeError \<Longrightarrow>
   loads_loop ip s t i rs m =
     loads_loop ip s t (i + 1) rs (if py_strip [s ! i] \<noteq> [] then True else m)"
  by (subst loads_loop.simps) simp

lemma loads_loop_raised:
  "i < length s \<Longrightarrow> raw_decode ip (drop i s) = Inl e \<Longrightarrow> e \<noteq> JSONDecodeError \<Longrightarrow>
   loads_loop ip s t i rs m = Some (Inl e)"
  by (subst loads_loop.simps) simp

text \<open>The loop ends: it returns or it raises.\<close>

lemma loads_loop_terminates: "\<exists>r. loads_loop ip s t i rs m = Some r"
proof (induction "length s - i" arbitrary: i rs m rule: less_induct)
  case less
  show ?case
  proof (cases "i < length s")
    case False
    then show ?thesis by (simp add: loads_loop_exit)
  next
    case True
    show ?thesis
    proof (cases "raw_decode ip (drop i s)")
      case (Inl e)
      show ?thesis
      proof (cases "e = JSONDecodeError")
        case True
        have "length s - (i + 1) < length s - i" using \<open>i < length s\<close> by simp
        from less [OF this] show ?thesis
          using Inl True by (simp add: loads_loop_skipped [OF \<open>i < length s\<close>])
      next
        case False
        with Inl show ?thesis by (simp add: loads_loop_raised [OF True])
      qed
    next
      case (Inr p)
      obtain obj ind where p: "p = (obj, ind)" by (cases p)
      with Inr have d: "raw_decode ip (drop i s) = Inr (obj, ind)" by simp
      from raw_decode_consumes [OF d] True
      have "length s - (i + ind) < length s - i" by auto
      from less [OF this] show ?thesis
        by (simp only: loads_loop_decoded [OF True d])
    qed
  qed
qed

text \<open>What it raises is what the decoder raised and the handler did not catch.\<close>

lemma loads_loop_error:
  "loads_loop ip s t i rs m = Some (Inl e) \<Longrightarrow>
   e \<noteq> JSONDecodeError \<and> may_raise (int_max_str_digits ip) (recursion_room ip) (length s) e"
proof (induction "length s - i" arbitrary: i rs m rule: less_induct)
  case less
  show ?case
  proof (cases "i < length s")
    case False
    with less.prems show ?thesis by (simp add: loads_loop_exit)
  next
    case True
    show ?thesis
    proof (cases "raw_decode ip (drop i s)")
      case (Inl x)
      show ?thesis
      proof (cases "x = JSONDecodeError")
        case True
        have l: "length s - (i + 1) < length s - i" using \<open>i < length s\<close> by simp
        from less.prems Inl True have
          "loads_loop ip s t (i + 1) rs (if py_strip [s ! i] \<noteq> [] then True else m) = Some (Inl e)"
          by (simp add: loads_loop_skipped [OF \<open>i < length s\<close>])
        from less.hyps [OF l this] show ?thesis .
      next
        case False
        with less.prems Inl have "e = x" by (simp add: loads_loop_raised [OF True])
        with False raw_decode_error [OF Inl] show ?thesis
          using may_raise_mono [of _ _ "length (drop i s)" x "length s"] by simp
      qed
    next
      case (Inr p)
      obtain obj ind where p: "p = (obj, ind)" by (cases p)
      with Inr have d: "raw_decode ip (drop i s) = Inr (obj, ind)" by simp
      from raw_decode_consumes [OF d] True
      have l: "length s - (i + ind) < length s - i" by auto
      from less.prems have
        "loads_loop ip s t (i + ind)
           (if (case t of None \<Rightarrow> True | Some ty \<Rightarrow> isinstance obj ty) then rs @ [obj] else rs)
           (if py_strip (take ind (drop i s)) \<noteq> [] then True else m) = Some (Inl e)"
        by (simp only: loads_loop_decoded [OF True d])
      from less.hyps [OF l this] show ?thesis .
    qed
  qed
qed

lemma decoded_slice_nonblank:
  assumes "raw_decode ip u = Inr (obj, ind)"
  shows "py_strip (take ind u) \<noteq> []"
proof -
  from raw_decode_first [OF assms] obtain c t where u: "u = c # t" "\<not> py_isspace c"
    by blast
  from raw_decode_consumes [OF assms] obtain k where "ind = Suc k"
    by (cases ind) auto
  with u show ?thesis by (simp add: py_strip_nonempty)
qed

lemma loads_loop_flag:
  "loads_loop ip s t i rs m = Some (Inr (rs', m')) \<Longrightarrow>
   m' = (m \<or> \<not> list_all py_isspace (drop i s))"
proof (induction "length s - i" arbitrary: i rs m rule: less_induct)
  case less
  show ?case
  proof (cases "i < length s")
    case False
    with less.prems show ?thesis by (simp add: loads_loop_exit)
  next
    case True
    then have dr: "drop i s = s ! i # drop (Suc i) s"
      by (simp add: Cons_nth_drop_Suc)
    show ?thesis
    proof (cases "raw_decode ip (drop i s)")
      case (Inl e)
      have l: "length s - (i + 1) < length s - i" using True by simp
      have j: "e = JSONDecodeError"
      proof (rule ccontr)
        assume "e \<noteq> JSONDecodeError"
        from loads_loop_raised [OF True Inl this] less.prems show False by simp
      qed
      from less.prems Inl j have
        "loads_loop ip s t (i + 1) rs (if py_strip [s ! i] \<noteq> [] then True else m) =
           Some (Inr (rs', m'))"
        by (simp add: loads_loop_skipped [OF True])
      from less.hyps [OF l this] show ?thesis
        using dr by (auto simp: py_strip_single)
    next
      case (Inr p)
      obtain obj ind where p: "p = (obj, ind)" by (cases p)
      with Inr have d: "raw_decode ip (drop i s) = Inr (obj, ind)" by simp
      from raw_decode_consumes [OF d] True
      have l: "length s - (i + ind) < length s - i" by auto
      from raw_decode_first [OF d] dr have ns: "\<not> py_isspace (s ! i)" by simp
      from less.prems have
        "loads_loop ip s t (i + ind)
           (if (case t of None \<Rightarrow> True | Some ty \<Rightarrow> isinstance obj ty) then rs @ [obj] else rs)
           (if py_strip (take ind (drop i s)) \<noteq> [] then True else m) = Some (Inr (rs', m'))"
        by (simp only: loads_loop_decoded [OF True d])
      from less.hyps [OF l this] decoded_slice_nonblank [OF d] have "m'" by simp
      with ns dr show ?thesis by simp
    qed
  qed
qed

text \<open>
  The expected type only filters what is appended: with it the loop raises where it
  raises without, and returns the values of that type with the same flag.
\<close>

lemma loads_loop_expected_type:
  "loads_loop ip s None i rs m = Some r \<Longrightarrow>
   loads_loop ip s (Some ty) i (filter (\<lambda>v. isinstance v ty) rs) m =
     Some (case r of
             Inl e \<Rightarrow> Inl e
           | Inr (rs', m') \<Rightarrow> Inr (filter (\<lambda>v. isinstance v ty) rs', m'))"
proof (induction "length s - i" arbitrary: i rs m rule: less_induct)
  case less
  show ?case
  proof (cases "i < length s")
    case False
    with less.prems show ?thesis by (auto simp: loads_loop_exit)
  next
    case True
    show ?thesis
    proof (cases "raw_decode ip (drop i s)")
      case (Inl e)
      show ?thesis
      proof (cases "e = JSONDecodeError")
        case j: True
        have l: "length s - (i + 1) < length s - i" using True by simp
        from less.prems Inl j have
          "loads_loop ip s None (i + 1) rs (if py_strip [s ! i] \<noteq> [] then True else m) = Some r"
          by (simp add: loads_loop_skipped [OF True])
        from less.hyps [OF l this] Inl j show ?thesis
          by (simp add: loads_loop_skipped [OF True])
      next
        case False
        from less.prems have "r = Inl e"
          by (simp add: loads_loop_raised [OF True Inl False])
        then show ?thesis
          by (simp add: loads_loop_raised [OF True Inl False])
      qed
    next
      case (Inr p)
      obtain obj ind where p: "p = (obj, ind)" by (cases p)
      with Inr have d: "raw_decode ip (drop i s) = Inr (obj, ind)" by simp
      from raw_decode_consumes [OF d] True
      have l: "length s - (i + ind) < length s - i" by auto
      from less.prems have
        "loads_loop ip s None (i + ind) (rs @ [obj])
           (if py_strip (take ind (drop i s)) \<noteq> [] then True else m) = Some r"
        by (simp add: loads_loop_decoded [OF True d])
      from less.hyps [OF l this] show ?thesis
        by (cases "isinstance obj ty"; cases "py_strip (take ind (drop i s)) = []")
          (simp_all add: loads_loop_decoded [OF True d])
    qed
  qed
qed

section \<open>\<^verbatim>\<open>loads_partial_json\<close>: the flag, the exceptions, the result record\<close>

lemma raw_decode_empty_object:
  "raw_decode \<lparr>recursion_room = Suc room, int_max_str_digits = mx\<rparr> (ascii ''{}'') =
     Inr (JObject [], 2)"
  by (simp add: raw_decode_def skip_ws_def json_ws_def)

lemma loads_loop_empty_object:
  "loads_loop \<lparr>recursion_room = Suc room, int_max_str_digits = mx\<rparr> (ascii ''{}'') t 0 [] False =
     Some (Inr (if (case t of None \<Rightarrow> True | Some ty \<Rightarrow> ty = PyDict) then [JObject []] else [], True))"
proof -
  let ?ip = "\<lparr>recursion_room = Suc room, int_max_str_digits = mx\<rparr>"
  have d: "raw_decode ?ip (drop 0 (ascii ''{}'')) = Inr (JObject [], 2)"
    using raw_decode_empty_object [of room mx] by simp
  have nb: "py_strip (take 2 (drop 0 (ascii ''{}''))) \<noteq> []"
    by (rule decoded_slice_nonblank [OF d])
  have "loads_loop ?ip (ascii ''{}'') t 0 [] False =
          loads_loop ?ip (ascii ''{}'') t (0 + 2)
            (if (case t of None \<Rightarrow> True | Some ty \<Rightarrow> isinstance (JObject []) ty)
             then [] @ [JObject []] else [])
            (if py_strip (take 2 (drop 0 (ascii ''{}''))) \<noteq> [] then True else False)"
    by (rule loads_loop_decoded [OF _ d]) simp
  also have "\<dots> = Some (Inr (if (case t of None \<Rightarrow> True | Some ty \<Rightarrow> ty = PyDict)
                                then [JObject []] else [], True))"
    using nb by (simp add: loads_loop_exit split: option.splits)
  finally show ?thesis .
qed

text \<open>
  Claim C2. A string made of valid JSON object literals separated by whitespace is
  meant to come back with \<open>malformed = False\<close>. The code tests
  \<^verbatim>\<open>json_string[i:i+ind].strip()\<close>, which is the text of the value that was just
  decoded and is never blank, so the flag is raised by every value that decodes: the
  single well-formed object \<^verbatim>\<open>{}\<close> is returned, and reported as malformed (in every
  interpreter that has room for one nested call and whatever its digit limit).
\<close>

theorem loads_partial_json_flags_valid_object:
  "loads_partial_json \<lparr>recursion_room = Suc room, int_max_str_digits = mx\<rparr>
      (Str (ascii ''{}'')) (Some PyDict) =
     Some (Inr ([JObject []], True))"
  by (simp only: loads_partial_json_def pydata.case loads_loop_empty_object option.case
      if_True refl)

lemma skip_ws_brackets:
  "skip_ws (replicate n (cp CHR ''['')) = replicate n (cp CHR ''['')"
  by (cases n) (simp_all add: skip_ws_def json_ws_def)

lemma scan_once_too_deep:
  "scan_once mx room (replicate (Suc (room + n)) (cp CHR ''['')) = Inl RecursionError"
proof (induction room)
  case 0
  show ?case by simp
next
  case (Suc room)
  have p: "parse_array mx room [] (replicate (Suc (room + n)) (cp CHR ''['')) =
             Inl RecursionError"
    by (subst parse_array.simps) (simp only: Suc sum.case)
  have "scan_once mx (Suc room) (cp CHR ''['' # replicate (Suc (room + n)) (cp CHR ''['')) =
          parse_array mx room [] (replicate (Suc (room + n)) (cp CHR ''[''))"
    by (simp add: skip_ws_brackets [of "Suc (room + n)", simplified])
  with p show ?case by simp
qed

text \<open>
  Claim C9. The claim wants \<^verbatim>\<open>loads_partial_json\<close> never to raise on a \<^verbatim>\<open>str\<close>,
  whatever it holds. The handler catches \<^verbatim>\<open>json.JSONDecodeError\<close> only, and
  \<^verbatim>\<open>raw_decode\<close> raises \<^verbatim>\<open>RecursionError\<close> on text that nests deeper than the
  interpreter has room for: a string of more opening brackets than that (a thousand will
  do with the default limit) makes the first \<^verbatim>\<open>raw_decode\<close> raise, and the exception
  leaves \<^verbatim>\<open>loads_partial_json\<close>. No list and no flag are returned.
\<close>

theorem loads_partial_json_raises_on_deep_nesting:
  "loads_partial_json ip (Str (replicate (Suc (recursion_room ip + n)) (cp CHR ''['')))
      expected_type =
     Some (Inl RecursionError)"
proof -
  let ?s = "replicate (Suc (recursion_room ip + n)) (cp CHR ''['')"
  have d: "raw_decode ip (drop 0 ?s) = Inl RecursionError"
    by (simp only: drop_0 raw_decode_def scan_once_too_deep sum.case)
  have "loads_loop ip ?s expected_type 0 [] False = Some (Inl RecursionError)"
    by (rule loads_loop_raised [OF _ d]) simp_all
  then show ?thesis by (simp only: loads_partial_json_def pydata.case)
qed

text \<open>
  The other exception that escapes is the \<^verbatim>\<open>ValueError\<close> of \<^verbatim>\<open>int\<close> on an integer
  with more digits than the limit, where the interpreter has one.
\<close>

lemma scan_once_too_many_digits:
  assumes "0 < mx" and "640 < n" and "mx < n"
  shows "scan_once mx room (replicate n (cp CHR ''1'')) = Inl ValueError"
proof -
  from assms(2) obtain k where n: "n = Suc k" by (cases n) auto
  have i: "match_integer (cp CHR ''1'' # replicate k (cp CHR ''1'')) =
             Some (cp CHR ''1'' # replicate k (cp CHR ''1''), [])"
    by (simp add: match_integer_def match_digits_def is_digit_def takeWhile_replicate
        dropWhile_replicate)
  have l: "long_from_string mx (cp CHR ''1'' # replicate k (cp CHR ''1'')) = Inl ValueError"
    using assms n by (simp add: long_from_string_def)
  have m: "match_number mx (cp CHR ''1'' # replicate k (cp CHR ''1'')) = Inl ValueError"
    using i l by (simp add: match_number_def match_frac_def match_exp_def)
  have "scan_atom mx (cp CHR ''1'' # replicate k (cp CHR ''1'')) = Inl ValueError"
    unfolding scan_atom_def using m by simp
  then show ?thesis by (simp add: n)
qed

lemma loads_partial_json_raises_on_long_integer:
  assumes "0 < int_max_str_digits ip" and "640 < n" and "int_max_str_digits ip < n"
  shows "loads_partial_json ip (Str (replicate n (cp CHR ''1''))) expected_type =
           Some (Inl ValueError)"
proof -
  let ?s = "replicate n (cp CHR ''1'')"
  have d: "raw_decode ip (drop 0 ?s) = Inl ValueError"
    by (simp only: drop_0 raw_decode_def scan_once_too_many_digits [OF assms] sum.case)
  have z: "0 < length ?s" using assms(2) by simp
  have "loads_loop ip ?s expected_type 0 [] False = Some (Inl ValueError)"
    by (rule loads_loop_raised [OF z d]) simp
  then show ?thesis by (simp only: loads_partial_json_def pydata.case)
qed

text \<open>
  What does hold: the loop always ends; these two are the only exceptions on a
  \<^verbatim>\<open>str\<close>; within the limits of the interpreter there is none; and a result that is
  returned is flagged exactly when the text holds something that is not whitespace.
\<close>

lemma loads_partial_json_terminates:
  "\<exists>r. loads_partial_json ip json_string expected_type = Some r"
proof (cases json_string)
  case (Str s)
  with loads_loop_terminates [of ip s expected_type 0 "[]" False] show ?thesis
    by (simp add: loads_partial_json_def)
next
  case (Bytes b)
  then show ?thesis by (simp add: loads_partial_json_def)
qed

lemma loads_partial_json_raises_only:
  assumes "loads_partial_json ip (Str json_string) expected_type = Some (Inl e)"
  shows "(e = RecursionError \<and> recursion_room ip < length json_string)
       \<or> (e = ValueError \<and> 0 < int_max_str_digits ip \<and> 640 < length json_string
            \<and> int_max_str_digits ip < length json_string)"
  using loads_loop_error [of ip json_string expected_type 0 "[]" False e] assms
  by (auto simp: loads_partial_json_def may_raise_def)

lemma loads_partial_json_within_limits:
  assumes "length json_string \<le> recursion_room ip"
    and "int_max_str_digits ip = 0 \<or> length json_string \<le> int_max_str_digits ip"
  shows "\<exists>results malformed.
           loads_partial_json ip (Str json_string) expected_type =
             Some (Inr (results, malformed))"
proof -
  obtain r where r: "loads_partial_json ip (Str json_string) expected_type = Some r"
    using loads_partial_json_terminates by blast
  show ?thesis
  proof (cases r)
    case (Inl e)
    with loads_partial_json_raises_only [of ip json_string expected_type e] r assms
    show ?thesis by auto
  next
    case (Inr p)
    with r show ?thesis by (cases p) simp
  qed
qed

lemma loads_partial_json_flag:
  assumes "loads_partial_json ip (Str json_string) expected_type =
             Some (Inr (results, malformed))"
  shows "malformed = (\<not> list_all py_isspace json_string)"
  using loads_loop_flag [of ip json_string expected_type 0 "[]" False results malformed] assms
  by (simp add: loads_partial_json_def)

text \<open>
  Claim C10. In every result that \<^verbatim>\<open>create_test_script_result\<close> builds, \<open>tests\<close>
  holds exactly the decoded values that are JSON objects, in order, flagged or not;
  \<open>malformed\<close> holds the whole of stdout when the flag is set and \<^verbatim>\<open>None\<close>
  otherwise.
\<close>

theorem create_test_script_result_fields:
  assumes "create_test_script_result ip file_name stdout stderr run_time timeout = Some (Inr r)"
  shows "\<exists>objs decoded flag.
           loads_partial_json ip stdout (Some PyDict) = Some (Inr (objs, flag))
         \<and> loads_partial_json ip stdout None = Some (Inr (decoded, flag))
         \<and> r_tests r = objs
         \<and> objs = filter (\<lambda>v. isinstance v PyDict) decoded
         \<and> r_malformed r = (if flag then Some stdout else None)"
proof -
  from assms obtain objs flag where
    o: "loads_partial_json ip stdout (Some PyDict) = Some (Inr (objs, flag))"
    by (cases "loads_partial_json ip stdout (Some PyDict)")
      (auto simp: create_test_script_result_def split: sum.splits)
  have "\<exists>decoded.
          loads_partial_json ip stdout None = Some (Inr (decoded, flag))
        \<and> objs = filter (\<lambda>v. isinstance v PyDict) decoded"
  proof (cases stdout)
    case (Str s)
    obtain x where a: "loads_loop ip s None 0 [] False = Some x"
      using loads_loop_terminates by blast
    from loads_loop_expected_type [OF a, of PyDict] have b:
      "loads_loop ip s (Some PyDict) 0 [] False =
          Some (case x of
                  Inl e \<Rightarrow> Inl e
                | Inr (rs', m') \<Rightarrow> Inr (filter (\<lambda>v. isinstance v PyDict) rs', m'))"
      by simp
    from o Str have c: "loads_loop ip s (Some PyDict) 0 [] False = Some (Inr (objs, flag))"
      by (simp add: loads_partial_json_def)
    show ?thesis
    proof (cases x)
      case (Inl e)
      with b c show ?thesis by simp
    next
      case (Inr p)
      obtain decoded m' where p: "p = (decoded, m')" by (cases p)
      with Inr b c have "objs = filter (\<lambda>v. isinstance v PyDict) decoded" "flag = m'"
        by simp_all
      with a Inr p Str show ?thesis by (simp add: loads_partial_json_def)
    qed
  next
    case (Bytes b)
    with o have "b = []" "objs = []" "flag = False"
      by (simp_all add: loads_partial_json_def split: if_splits)
    with Bytes show ?thesis by (simp add: loads_partial_json_def)
  qed
  then obtain decoded where
    d: "loads_partial_json ip stdout None = Some (Inr (decoded, flag))" and
    f: "objs = filter (\<lambda>v. isinstance v PyDict) decoded"
    by blast
  from assms o have
    "r_tests r = objs"
    "r_malformed r = (if flag then Some stdout else None)"
    by (auto simp: create_test_script_result_def)
  with d o f show ?thesis by blast
qed

theorem create_test_script_result_fields_witness:
  "create_test_script_result \<lparr>recursion_room = 997, int_max_str_digits = 4300\<rparr>
      ''a.py'' (Str (ascii ''{}'')) (Str []) 5 None =
     Some (Inr \<lparr>r_file_name = ''a.py'', r_time = 5, r_timeout = None,
                r_tests = [JObject []], r_stderr = None,
                r_malformed = Some (Str (ascii ''{}''))\<rparr>)
   \<and> (\<exists>objs decoded flag.
           loads_partial_json \<lparr>recursion_room = 997, int_max_str_digits = 4300\<rparr>
              (Str (ascii ''{}'')) (Some PyDict) = Some (Inr (objs, flag))
         \<and> loads_partial_json \<lparr>recursion_room = 997, int_max_str_digits = 4300\<rparr>
              (Str (ascii ''{}'')) None = Some (Inr (decoded, flag))
         \<and> [JObject []] = objs
         \<and> objs = filter (\<lambda>v. isinstance v PyDict) decoded
         \<and> Some (Str (ascii ''{}'')) = (if flag then Some (Str (ascii ''{}'')) else None))"
proof -
  have e: "loads_loop \<lparr>recursion_room = 997, int_max_str_digits = 4300\<rparr> (ascii ''{}'')
             (Some PyDict) 0 [] False = Some (Inr ([JObject []], True))"
    using loads_loop_empty_object [of 996 4300 "Some PyDict"] by simp
  have c: "create_test_script_result \<lparr>recursion_room = 997, int_max_str_digits = 4300\<rparr>
      ''a.py'' (Str (ascii ''{}'')) (Str []) 5 None =
     Some (Inr \<lparr>r_file_name = ''a.py'', r_time = 5, r_timeout = None,
                r_tests = [JObject []], r_stderr = None,
                r_malformed = Some (Str (ascii ''{}''))\<rparr>)"
    by (simp only: create_test_script_result_def loads_partial_json_def pydata.case e
        option.case sum.case prod.case truthy_def if_True if_False simp_thms)
  from create_test_script_result_fields [OF c] c show ?thesis by simp
qed

section \<open>Queue telemetry: the average pop interval\<close>

lemma pops_0_2_5:
  "update_pop_interval_stat ''q'' 0 Map.empty =
     Inr [''q_start'' \<mapsto> HFloat 0, ''q_last'' \<mapsto> HFloat 0, ''q_count'' \<mapsto> HInt 1]"
  "update_pop_interval_stat ''q'' 2
       [''q_start'' \<mapsto> HFloat 0, ''q_last'' \<mapsto> HFloat 0, ''q_count'' \<mapsto> HInt 1] =
     Inr [''q_start'' \<mapsto> HFloat 0, ''q_last'' \<mapsto> HFloat 2, ''q_count'' \<mapsto> HInt 2]"
  "update_pop_interval_stat ''q'' 5
       [''q_start'' \<mapsto> HFloat 0, ''q_last'' \<mapsto> HFloat 2, ''q_count'' \<mapsto> HInt 2] =
     Inr [''q_start'' \<mapsto> HFloat 0, ''q_last'' \<mapsto> HFloat 5, ''q_count'' \<mapsto> HInt 3]"
  by (simp_all add: update_pop_interval_stat_def Let_def fun_upd_twist)

text \<open>
  Claim C4. After pops at \<open>t = 0, 2, 5\<close> the store holds start \<open>0\<close>, last \<open>5\<close> and
  count \<open>3\<close>, and the average interval is meant to be \<open>(5 - 0) / (3 - 1) = 5/2\<close>.
  \<^verbatim>\<open>get_pop_interval_stat\<close> reads \<^verbatim>\<open>'{}_count'\<close> where it means \<^verbatim>\<open>'{}_last'\<close>, so
  \<open>last\<close> is the count and the code returns \<open>(3 - 0) / (3 - 1) = 3/2\<close>.
\<close>

theorem get_avg_pop_interval_reads_count_as_last:
  "\<exists>h1 h2 h3.
      update_pop_interval_stat ''q'' 0 Map.empty = Inr h1
    \<and> update_pop_interval_stat ''q'' 2 h1 = Inr h2
    \<and> update_pop_interval_stat ''q'' 5 h2 = Inr h3
    \<and> h3 ''q_start'' = Some (HFloat 0)
    \<and> h3 ''q_last'' = Some (HFloat 5)
    \<and> h3 ''q_count'' = Some (HInt 3)
    \<and> get_pop_interval_stat ''q'' h3 = (Some (HFloat 0), Some (HInt 3), Some (HInt 3))
    \<and> get_avg_pop_interval ''q'' h3 = Inr (Some (3 / 2))"
proof -
  let ?h1 = "[''q_start'' \<mapsto> HFloat 0, ''q_last'' \<mapsto> HFloat 0, ''q_count'' \<mapsto> HInt 1]"
  let ?h2 = "[''q_start'' \<mapsto> HFloat 0, ''q_last'' \<mapsto> HFloat 2, ''q_count'' \<mapsto> HInt 2]"
  let ?h3 = "[''q_start'' \<mapsto> HFloat 0, ''q_last'' \<mapsto> HFloat 5, ''q_count'' \<mapsto> HInt 3]"
  have s: "get_pop_interval_stat ''q'' ?h3 = (Some (HFloat 0), Some (HInt 3), Some (HInt 3))"
    by (simp add: get_pop_interval_stat_def)
  have g: "get_avg_pop_interval ''q'' ?h3 = Inr (Some (3 / 2))"
    by (simp add: get_avg_pop_interval_def s py_float_def py_int_def)
  show ?thesis
    by (rule exI [where x = ?h1], rule exI [where x = ?h2], rule exI [where x = ?h3])
      (simp add: pops_0_2_5 s g)
qed

text \<open>The two other cases of the claim hold: one pop gives \<open>0\<close>, no burst gives \<^verbatim>\<open>None\<close>.\<close>

lemma get_avg_pop_interval_single_pop:
  assumes "h (queue_name @ ''_start'') = Some (HFloat t)"
    and "h (queue_name @ ''_count'') = Some (HInt 1)"
  shows "get_avg_pop_interval queue_name h = Inr (Some 0)"
  using assms
  by (simp add: get_avg_pop_interval_def get_pop_interval_stat_def py_float_def py_int_def)

lemma get_avg_pop_interval_no_burst:
  assumes "h (queue_name @ ''_start'') = None"
  shows "get_avg_pop_interval queue_name h = Inr None"
  using assms
  by (simp add: get_avg_pop_interval_def get_pop_interval_stat_def py_float_def
      on_type_error_def)

lemma get_avg_pop_interval_formula:
  assumes "h (queue_name @ ''_start'') = Some (HFloat t)"
    and "h (queue_name @ ''_count'') = Some (HInt n)"
    and "n \<noteq> 1"
  shows "get_avg_pop_interval queue_name h = Inr (Some ((of_int n - t) / of_int (n - 1)))"
  using assms
  by (simp add: get_avg_pop_interval_def get_pop_interval_stat_def py_float_def py_int_def)

section \<open>Running the test scripts: timeouts and errors\<close>

lemma loads_partial_json_empty_bytes:
  "loads_partial_json ip (Bytes []) t = Some (Inr ([], False))"
  by (simp add: loads_partial_json_def)

lemma loads_partial_json_empty_str:
  "loads_partial_json ip (Str []) t = Some (Inr ([], False))"
  by (simp add: loads_partial_json_def loads_loop_exit)

text \<open>
  Claim C1. The script \<^verbatim>\<open>b.py\<close> is configured with a timeout of 1 second and runs
  for 5 seconds, printing nothing. The claim wants its process group killed and the
  timeout recorded in the result. Line 309 has set \<^verbatim>\<open>timeout\<close> to \<^verbatim>\<open>None\<close>, so
  \<^verbatim>\<open>communicate\<close> waits the 5 seconds out: nothing is killed and the result's
  \<open>timeout\<close> is \<^verbatim>\<open>None\<close>.
\<close>

theorem run_test_scripts_ignores_timeout:
  "run_test_scripts ip
      \<lparr>format_cmd = (\<lambda>cmd file_name. Inr (''./'' @ file_name)),
       popen = (\<lambda>args cwd. Inr \<lparr>p_pid = 7, p_exits_after = Some 5, p_stdout = [], p_stderr = []\<rparr>)\<rparr>
      ''./{}'' [(''b.py'', Some 1)] ''/home/tester'' =
   Some (Inr ([\<lparr>r_file_name = ''b.py'', r_time = 5000, r_timeout = None, r_tests = [],
                 r_stderr = None, r_malformed = None\<rparr>], []))"
  by (simp add: run_test_scripts_def run_script_def try_body_def communicate_def
      create_test_script_result_def loads_partial_json_empty_bytes truthy_def)

text \<open>
  Claim C3. \<^verbatim>\<open>Popen\<close> cannot start \<^verbatim>\<open>a.py\<close> and raises \<^verbatim>\<open>FileNotFoundError\<close>;
  \<^verbatim>\<open>b.py\<close> would run. The claim wants the error in the stderr of the result for
  \<^verbatim>\<open>a.py\<close> and a result for \<^verbatim>\<open>b.py\<close>. The handler reads \<^verbatim>\<open>e.message\<close>, which
  the exception does not have, so the handler itself raises \<^verbatim>\<open>AttributeError\<close>, and
  after the \<^verbatim>\<open>finally\<close> block that exception leaves \<^verbatim>\<open>run_test_scripts\<close>: no list
  is returned and \<^verbatim>\<open>b.py\<close> is never started.
\<close>

theorem run_test_scripts_error_escapes:
  "run_test_scripts ip
      \<lparr>format_cmd = (\<lambda>cmd file_name. Inr (''./'' @ file_name)),
       popen = (\<lambda>args cwd.
                  if args = ''./a.py'' then Inl FileNotFoundError
                  else Inr \<lparr>p_pid = 7, p_exits_after = Some 0, p_stdout = [], p_stderr = []\<rparr>)\<rparr>
      ''./{}'' [(''a.py'', None), (''b.py'', None)] ''/home/tester'' =
   Some (Inl AttributeError)"
  by (simp add: run_test_scripts_def run_script_def try_body_def except_handler_def
      exn_message_def create_test_script_result_def loads_partial_json_empty_str truthy_def)

section \<open>Borrowed resources\<close>

lemma tester_user_returns_identity:
  assumes "user_list w = user_data # rest"
    and "leaves_pool body"
  shows "fst (tester_user loads body w) \<noteq> Blocks
       \<and> user_list (snd (tester_user loads body w)) = rest @ [user_data]"
proof (cases "loads user_data")
  case (Inl e)
  with assms(1) show ?thesis by (simp add: tester_user_def rpush_def)
next
  case (Inr u)
  obtain res w2 where b: "body u (w\<lparr>user_list := rest\<rparr>) = (res, w2)"
    by (cases "body u (w\<lparr>user_list := rest\<rparr>)")
  from assms(2) have
    "fst (body u (w\<lparr>user_list := rest\<rparr>)) \<noteq> Blocks"
    "user_list (snd (body u (w\<lparr>user_list := rest\<rparr>))) = user_list (w\<lparr>user_list := rest\<rparr>)"
    unfolding leaves_pool_def by blast+
  with b have nb: "res \<noteq> Blocks" and ul: "user_list w2 = rest"
    by simp_all
  from nb assms(1) Inr b ul show ?thesis
    by (cases res) (simp_all add: tester_user_def rpush_def)
qed

lemma acquire_release_pairs_length:
  assumes "list_all leaves_pool bodies"
    and "user_list w \<noteq> []"
  shows "length (user_list (acquire_release_pairs loads bodies w)) = length (user_list w)"
  using assms
proof (induction bodies arbitrary: w)
  case Nil
  then show ?case by simp
next
  case (Cons body bodies)
  from Cons.prems(2) obtain user_data rest where ul: "user_list w = user_data # rest"
    by (cases "user_list w") auto
  from Cons.prems(1) have lp: "leaves_pool body" and rest: "list_all leaves_pool bodies"
    by simp_all
  let ?w = "snd (tester_user loads body w)"
  from tester_user_returns_identity [OF ul lp, of loads]
  have u: "user_list ?w = rest @ [user_data]" by simp
  then have "user_list ?w \<noteq> []" by simp
  from Cons.IH [OF rest this] u ul show ?case by simp
qed

text \<open>
  Claim C5. An identity taken by \<^verbatim>\<open>tester_user\<close> is back in the pool when the
  \<^verbatim>\<open>with\<close> statement is left, whether its block returned or raised and also when
  decoding the identity failed; so after any run of acquire/release pairs the pool
  holds as many identities as before. (The blocks end and do not touch the pool
  themselves.)
\<close>

theorem tester_user_conserves_pool:
  assumes "leaves_pool body"
    and "list_all leaves_pool bodies"
    and "user_list w = user_data # rest"
  shows "fst (tester_user loads body w) \<noteq> Blocks
       \<and> user_list (snd (tester_user loads body w)) = rest @ [user_data]
       \<and> length (user_list (acquire_release_pairs loads bodies w)) = length (user_list w)"
proof -
  from assms(3) have "user_list w \<noteq> []" by simp
  from acquire_release_pairs_length [OF assms(2) this, of loads]
    tester_user_returns_identity [OF assms(3) assms(1), of loads]
  show ?thesis by simp
qed

theorem tester_user_conserves_pool_witness:
  "leaves_pool (\<lambda>(u :: string) w. (Raises ValueError :: unit outcome, w))
   \<and> list_all leaves_pool
        [\<lambda>(u :: string) w. (Raises ValueError :: unit outcome, w), \<lambda>u w. (Returns (), w)]
   \<and> user_list \<lparr>user_list = [''alice'', ''bob''], script_hash = Map.empty, dirs = Map.empty,
                  open_fds = [], flocks = [], events = []\<rparr> = ''alice'' # [''bob'']
   \<and> fst (tester_user Inr (\<lambda>(u :: string) w. (Raises ValueError :: unit outcome, w))
            \<lparr>user_list = [''alice'', ''bob''], script_hash = Map.empty, dirs = Map.empty,
             open_fds = [], flocks = [], events = []\<rparr>) = Raises ValueError
   \<and> user_list (snd (tester_user Inr (\<lambda>(u :: string) w. (Raises ValueError :: unit outcome, w))
            \<lparr>user_list = [''alice'', ''bob''], script_hash = Map.empty, dirs = Map.empty,
             open_fds = [], flocks = [], events = []\<rparr>)) = [''bob''] @ [''alice'']
   \<and> length (user_list (acquire_release_pairs Inr
            [\<lambda>(u :: string) w. (Raises ValueError :: unit outcome, w), \<lambda>u w. (Returns (), w)]
            \<lparr>user_list = [''alice'', ''bob''], script_hash = Map.empty, dirs = Map.empty,
             open_fds = [], flocks = [], events = []\<rparr>)) = 2"
proof -
  let ?fail = "\<lambda>(u :: string) w. (Raises ValueError :: unit outcome, w)"
  let ?ok = "\<lambda>(u :: string) w. (Returns () :: unit outcome, w)"
  let ?w = "\<lparr>user_list = [''alice'', ''bob''], script_hash = Map.empty, dirs = Map.empty,
             open_fds = [], flocks = [], events = []\<rparr>"
  have a: "leaves_pool ?fail" by (simp add: leaves_pool_def)
  have b: "list_all leaves_pool [?fail, ?ok]" by (simp add: leaves_pool_def)
  have c: "user_list ?w = ''alice'' # [''bob'']" by simp
  have d: "fst (tester_user Inr ?fail ?w) = Raises ValueError"
    by (simp add: tester_user_def)
  from tester_user_conserves_pool [OF a b c, of Inr] a b c d show ?thesis by simp
qed

text \<open>
  Claim C6. The block run while a descriptor is open and locked raises. The claim wants
  the lock released and the descriptor closed all the same. \<^verbatim>\<open>fd_open\<close> and
  \<^verbatim>\<open>fd_lock\<close> have no \<^verbatim>\<open>try ... finally\<close> around their \<^verbatim>\<open>yield\<close> (unlike
  \<^verbatim>\<open>tester_user\<close>), so the code after it is skipped: descriptor 3 stays open and its
  shared lock stays held.
\<close>

theorem fd_open_fd_lock_leak_on_exception:
  "fd_open (Some ''/scripts'')
      (\<lambda>fd. fd_lock (\<lambda>w. w) fd False (\<lambda>w. (Raises FileNotFoundError :: unit outcome, w)))
      \<lparr>user_list = [], script_hash = Map.empty, dirs = [''/scripts'' \<mapsto> []],
       open_fds = [], flocks = [], events = []\<rparr> =
   (Raises FileNotFoundError,
      \<lparr>user_list = [], script_hash = Map.empty, dirs = [''/scripts'' \<mapsto> []],
       open_fds = [(3, ''/scripts'')], flocks = [(3, ''/scripts'', False)],
       events = [Opened 3 ''/scripts'', Locked 3 False]\<rparr>)"
  by (simp add: fd_open_def os_open_def fresh_fd_def fd_lock_def flock_def)

text \<open>When the block returns, both are released.\<close>

lemma fd_open_fd_lock_release_on_return:
  "fd_open (Some ''/scripts'')
      (\<lambda>fd. fd_lock (\<lambda>w. w) fd False (\<lambda>w. (Returns (), w)))
      \<lparr>user_list = [], script_hash = Map.empty, dirs = [''/scripts'' \<mapsto> []],
       open_fds = [], flocks = [], events = []\<rparr> =
   (Returns (),
      \<lparr>user_list = [], script_hash = Map.empty, dirs = [''/scripts'' \<mapsto> []],
       open_fds = [], flocks = [],
       events = [Opened 3 ''/scripts'', Locked 3 False, Unlocked 3, Closed 3]\<rparr>)"
  by (simp add: fd_open_def os_open_def fresh_fd_def fd_lock_def flock_def flock_un_def
      os_close_def)

section \<open>Versions of the test scripts: swap, lock, delete\<close>

declare str_of_nat.simps [simp del]

lemma makedirs_frame:
  "makedirs dst rel w = (r, w') \<Longrightarrow>
   events w' = events w \<and> script_hash w' = script_hash w \<and> open_fds w' = open_fds w
   \<and> flocks w' = flocks w \<and> user_list w' = user_list w"
  by (auto simp: makedirs_def Let_def split: prod.splits option.splits)

lemma copy2_frame:
  "copy2 dst rel w = (r, w') \<Longrightarrow>
   events w' = events w \<and> script_hash w' = script_hash w \<and> open_fds w' = open_fds w
   \<and> flocks w' = flocks w \<and> user_list w' = user_list w"
  by (auto simp: copy2_def split: option.splits if_splits sum.splits)

lemma copy_entries_frame:
  "copy_entries dst es w = (r, w') \<Longrightarrow>
   events w' = events w \<and> script_hash w' = script_hash w \<and> open_fds w' = open_fds w
   \<and> flocks w' = flocks w \<and> user_list w' = user_list w"
proof (induction es arbitrary: w)
  case Nil
  then show ?case by simp
next
  case (Cons e es)
  obtain k rel where e: "e = (k, rel)" by (cases e)
  obtain r1 w1 where s: "(if k = Directory then makedirs dst rel w else copy2 dst rel w) = (r1, w1)"
    by (cases "if k = Directory then makedirs dst rel w else copy2 dst rel w")
  then have f: "events w1 = events w \<and> script_hash w1 = script_hash w \<and> open_fds w1 = open_fds w
      \<and> flocks w1 = flocks w \<and> user_list w1 = user_list w"
    using makedirs_frame [of dst rel w r1 w1] copy2_frame [of dst rel w r1 w1]
    by (auto split: if_splits)
  show ?case
  proof (cases r1)
    case (Returns u)
    with Cons.prems e s have "copy_entries dst es w1 = (r, w')" by simp
    from Cons.IH [OF this] f show ?thesis by simp
  next
    case (Raises x)
    with Cons.prems e s f show ?thesis by auto
  next
    case Blocks
    with Cons.prems e s f show ?thesis by auto
  qed
qed

lemma copy_tree_frame:
  "copy_tree src dst w = (r, w') \<Longrightarrow>
   events w' = events w \<and> script_hash w' = script_hash w \<and> open_fds w' = open_fds w
   \<and> flocks w' = flocks w \<and> user_list w' = user_list w"
  unfolding copy_tree_def by (rule copy_entries_frame)

text \<open>The locked deletion: \<^verbatim>\<open>with fd_open(old) as fd: with fd_lock(fd): rmtree(old)\<close>.\<close>

lemma locked_delete_events:
  assumes "fd_open old (\<lambda>fd. fd_lock (\<lambda>w. w) fd True (rmtree old ignore_missing_dir_error)) w
             = (res, w')"
  shows "\<exists>es fd p.
           events w' = events w @ es
         \<and> prefix es [Opened fd p, Locked fd True, Rmtree p, Unlocked fd, Closed fd]
         \<and> script_hash w' = script_hash w
         \<and> (res = Returns () \<longrightarrow>
              old = Some p
            \<and> es = [Opened fd p, Locked fd True, Rmtree p, Unlocked fd, Closed fd]
            \<and> dirs w' p = None)"
proof (cases old)
  case None
  with assms show ?thesis by (auto simp: fd_open_def os_open_def)
next
  case (Some p)
  show ?thesis
  proof (cases "dirs w p")
    case None
    with assms Some show ?thesis by (auto simp: fd_open_def os_open_def)
  next
    case (Some t)
    define fd where "fd = fresh_fd w"
    define w1 where "w1 = w\<lparr>open_fds := open_fds w @ [(fd, p)], events := events w @ [Opened fd p]\<rparr>"
    have o: "os_open old w = (Returns fd, w1)"
      using \<open>old = Some p\<close> Some by (simp add: os_open_def fd_def w1_def Let_def)
    obtain r2 w2 where l: "fd_lock (\<lambda>w. w) fd True (rmtree old ignore_missing_dir_error) w1 = (r2, w2)"
      by (cases "fd_lock (\<lambda>w. w) fd True (rmtree old ignore_missing_dir_error) w1")
    have d1: "dirs w1 p = Some t" using Some by (simp add: w1_def)
    have inner: "\<exists>es. events w2 = events w1 @ es
         \<and> prefix es [Locked fd True, Rmtree p, Unlocked fd]
         \<and> script_hash w2 = script_hash w1
         \<and> (r2 = Returns () \<longrightarrow> es = [Locked fd True, Rmtree p, Unlocked fd] \<and> dirs w2 p = None)"
      using l d1 \<open>old = Some p\<close>
      by (auto simp: fd_lock_def flock_def flock_un_def rmtree_def Let_def
          split: option.splits if_splits)
    then obtain es where es:
      "events w2 = events w1 @ es" "prefix es [Locked fd True, Rmtree p, Unlocked fd]"
      "script_hash w2 = script_hash w1"
      "r2 = Returns () \<longrightarrow> es = [Locked fd True, Rmtree p, Unlocked fd] \<and> dirs w2 p = None"
      by blast
    have ev1: "events w1 = events w @ [Opened fd p]" and sh1: "script_hash w1 = script_hash w"
      by (simp_all add: w1_def)
    have pe: "prefix es [Locked fd True, Rmtree p, Unlocked fd, Closed fd]"
      using es(2) prefix_prefix [of es "[Locked fd True, Rmtree p, Unlocked fd]" "[Closed fd]"]
      by simp
    show ?thesis
    proof (cases r2)
      case (Returns u)
      with es have full: "es = [Locked fd True, Rmtree p, Unlocked fd]" "dirs w2 p = None"
        by simp_all
      from assms o l Returns have c: "(res, w') =
          (case os_close fd w2 of
             (Raises e, w3) \<Rightarrow> (Raises e, w3)
           | (Blocks, w3) \<Rightarrow> (Blocks, w3)
           | (Returns u, w3) \<Rightarrow> (Returns (), w3))"
        by (simp add: fd_open_def)
      show ?thesis
      proof (cases "map_of (open_fds w2) fd = None")
        case True
        with c have "res = Raises BadFileDescriptor" "w' = w2"
          by (simp_all add: os_close_def)
        with es(1,3) full ev1 sh1 show ?thesis
          by (intro exI [of _ "[Opened fd p, Locked fd True, Rmtree p, Unlocked fd]"]
              exI [of _ fd] exI [of _ p]) simp
      next
        case False
        with c have "res = Returns ()"
          "w' = w2\<lparr>open_fds := filter (\<lambda>(f, p). f \<noteq> fd) (open_fds w2),
                   flocks := filter (\<lambda>(f, p, x). f \<noteq> fd) (flocks w2),
                   events := events w2 @ [Closed fd]\<rparr>"
          by (simp_all add: os_close_def)
        with es(1,3) full ev1 sh1 \<open>old = Some p\<close> show ?thesis
          by (intro exI [of _ "[Opened fd p, Locked fd True, Rmtree p, Unlocked fd, Closed fd]"]
              exI [of _ fd] exI [of _ p]) simp
      qed
    next
      case (Raises x)
      with assms o l have "res = Raises x" "w' = w2" by (simp_all add: fd_open_def)
      with es ev1 sh1 pe show ?thesis
        by (intro exI [of _ "Opened fd p # es"] exI [of _ fd] exI [of _ p]) simp
    next
      case Blocks
      with assms o l have "res = Blocks" "w' = w2" by (simp_all add: fd_open_def)
      with es ev1 sh1 pe show ?thesis
        by (intro exI [of _ "Opened fd p # es"] exI [of _ fd] exI [of _ p]) simp
    qed
  qed
qed

lemma example_new_script_dir:
  "new_script_dir example_config 100 ''1'' ''m'' = ''/w/scripts/m/1/test_scripts_100''"
  by (simp add: new_script_dir_def example_config_def TEST_SCRIPT_DIR_def path_join_def
      clean_dir_name_def str_of_nat.simps)

text \<open>
  The order of the calls. In every execution of \<^verbatim>\<open>update_test_scripts\<close> the
  calls take effect in this order: the pointer is set to the new directory, the old
  directory is opened, locked exclusively and deleted, the lock is released and the
  descriptor closed; an execution that stops early has done a first part of this list.
  When the function returns, a get for the pair yields the new directory, and the old
  one is gone. That the path returned is not the deleted one needs the new directory's
  path to differ from that of the old.
\<close>

lemma update_test_scripts_swaps_before_delete:
  assumes "update_test_scripts cfg (\<lambda>w. w) now files_path assignment_id markus_address w
             = (res, w')"
  shows "\<exists>es fd old.
           events w' = events w @ es
         \<and> prefix es
             [HSet (get_test_script_key markus_address assignment_id)
                (new_script_dir cfg now assignment_id markus_address),
              Opened fd old, Locked fd True, Rmtree old, Unlocked fd, Closed fd]
         \<and> (res = Returns () \<longrightarrow>
              es = [HSet (get_test_script_key markus_address assignment_id)
                      (new_script_dir cfg now assignment_id markus_address),
                    Opened fd old, Locked fd True, Rmtree old, Unlocked fd, Closed fd]
            \<and> script_hash w (get_test_script_key markus_address assignment_id) = Some old
            \<and> dirs w' old = None
            \<and> fst (test_script_directory markus_address assignment_id None w')
                = Some (new_script_dir cfg now assignment_id markus_address)
            \<and> (new_script_dir cfg now assignment_id markus_address \<noteq> old \<longrightarrow>
                 fst (test_script_directory markus_address assignment_id None w') \<noteq> Some old))"
proof -
  define key where "key = get_test_script_key markus_address assignment_id"
  define new_dir where "new_dir = new_script_dir cfg now assignment_id markus_address"
  obtain r1 w1 where c: "copy_tree files_path new_dir w = (r1, w1)"
    by (cases "copy_tree files_path new_dir w")
  from copy_tree_frame [OF c] have f: "events w1 = events w" "script_hash w1 = script_hash w"
    by simp_all
  show ?thesis
  proof (cases r1)
    case (Raises x)
    with assms c have "res = Raises x" "w' = w1"
      by (simp_all add: update_test_scripts_def new_dir_def)
    with f show ?thesis by (intro exI [of _ "[]"]) simp
  next
    case Blocks
    with assms c have "res = Blocks" "w' = w1"
      by (simp_all add: update_test_scripts_def new_dir_def)
    with f show ?thesis by (intro exI [of _ "[]"]) simp
  next
    case (Returns u)
    define old where "old = script_hash w1 key"
    define w3 where "w3 = w1\<lparr>script_hash := (script_hash w1)(key \<mapsto> new_dir),
                             events := events w1 @ [HSet key new_dir]\<rparr>"
    from assms c Returns have d:
      "fd_open old (\<lambda>fd. fd_lock (\<lambda>w. w) fd True (rmtree old ignore_missing_dir_error)) w3
         = (res, w')"
      by (simp add: update_test_scripts_def new_dir_def [symmetric] test_script_directory_def
          key_def [symmetric] old_def w3_def Let_def)
    from locked_delete_events [OF d] obtain es fd p where l:
      "events w' = events w3 @ es"
      "prefix es [Opened fd p, Locked fd True, Rmtree p, Unlocked fd, Closed fd]"
      "script_hash w' = script_hash w3"
      "res = Returns () \<longrightarrow>
         old = Some p \<and> es = [Opened fd p, Locked fd True, Rmtree p, Unlocked fd, Closed fd]
         \<and> dirs w' p = None"
      by blast
    have ev: "events w' = events w @ HSet key new_dir # es"
      using l(1) f(1) by (simp add: w3_def)
    have get: "fst (test_script_directory markus_address assignment_id None w') = Some new_dir"
      using l(3) by (simp add: test_script_directory_def key_def [symmetric] w3_def)
    from ev l(2) l(4) get f(2) show ?thesis
      unfolding key_def [symmetric] new_dir_def [symmetric] old_def
      by (intro exI [of _ "HSet key new_dir # es"] exI [of _ fd] exI [of _ p]) auto
  qed
qed

lemma example_first_update:
  "fst (update_test_scripts example_config (\<lambda>w. w) 100 ''/new'' ''1'' ''m'' example_world)
     = Returns ()"
  by (simp add: update_test_scripts_def example_new_script_dir example_world_def copy_tree_def
      recursive_iglob_def makedirs_def copy2_def put_file_def upt_rec
      test_script_directory_def get_test_script_key_def clean_dir_name_def
      fd_open_def os_open_def fresh_fd_def fd_lock_def flock_def rmtree_def flock_un_def
      os_close_def Let_def)

lemma update_test_scripts_swaps_before_delete_example:
  "fst (update_test_scripts example_config (\<lambda>w. w) 100 ''/new'' ''1'' ''m'' example_world)
     = Returns ()
   \<and> (\<exists>es fd old.
         events (snd (update_test_scripts example_config (\<lambda>w. w) 100 ''/new'' ''1'' ''m''
                        example_world)) = events example_world @ es
       \<and> es = [HSet (get_test_script_key ''m'' ''1'') (new_script_dir example_config 100 ''1'' ''m''),
               Opened fd old, Locked fd True, Rmtree old, Unlocked fd, Closed fd]
       \<and> script_hash example_world (get_test_script_key ''m'' ''1'') = Some old
       \<and> dirs (snd (update_test_scripts example_config (\<lambda>w. w) 100 ''/new'' ''1'' ''m''
                      example_world)) old = None
       \<and> fst (test_script_directory ''m'' ''1'' None
                (snd (update_test_scripts example_config (\<lambda>w. w) 100 ''/new'' ''1'' ''m''
                        example_world)))
           = Some (new_script_dir example_config 100 ''1'' ''m''))"
proof -
  let ?u = "update_test_scripts example_config (\<lambda>w. w) 100 ''/new'' ''1'' ''m'' example_world"
  have p: "?u = (fst ?u, snd ?u)" by simp
  from update_test_scripts_swaps_before_delete [OF p] example_first_update
  show ?thesis by auto
qed

lemmas example_run =
  update_test_scripts_def example_new_script_dir example_world_def copy_tree_def
  recursive_iglob_def makedirs_def copy2_def put_file_def upt_rec
  test_script_directory_def get_test_script_key_def clean_dir_name_def
  fd_open_def os_open_def fresh_fd_def fd_lock_def flock_def rmtree_def flock_un_def
  os_close_def ignore_missing_dir_error_def Let_def

text \<open>
  Claim C7. The docstring of \<^verbatim>\<open>update_test_scripts\<close> promises a copy to a new
  location and the removal of the old one, so that after the deletion a get never
  returns the deleted path. The name of the new directory is \<^verbatim>\<open>test_scripts_\<close> and
  the time in whole seconds, which is not unique: when two updates for the same pair
  fall into the same second, the second update copies into the directory the pointer
  already names, sets the pointer to it again, and then locks and deletes that very
  directory. The update returns normally, the scripts just installed are gone, and a get
  returns the deleted path.
\<close>

theorem update_test_scripts_same_second_counterexample:
  "fst (update_test_scripts example_config (\<lambda>w. w) 100 ''/new'' ''1'' ''m''
         (snd (update_test_scripts example_config (\<lambda>w. w) 100 ''/new'' ''1'' ''m''
                 example_world))) = Returns ()
   \<and> fst (test_script_directory ''m'' ''1'' None
         (snd (update_test_scripts example_config (\<lambda>w. w) 100 ''/new'' ''1'' ''m''
            (snd (update_test_scripts example_config (\<lambda>w. w) 100 ''/new'' ''1'' ''m''
                    example_world)))))
       = Some ''/w/scripts/m/1/test_scripts_100''
   \<and> dirs (snd (update_test_scripts example_config (\<lambda>w. w) 100 ''/new'' ''1'' ''m''
            (snd (update_test_scripts example_config (\<lambda>w. w) 100 ''/new'' ''1'' ''m''
                    example_world))))
        ''/w/scripts/m/1/test_scripts_100'' = None
   \<and> Rmtree ''/w/scripts/m/1/test_scripts_100''
       \<in> set (events (snd (update_test_scripts example_config (\<lambda>w. w) 100 ''/new'' ''1'' ''m''
            (snd (update_test_scripts example_config (\<lambda>w. w) 100 ''/new'' ''1'' ''m''
                    example_world)))))"
  by (simp add: example_run)

lemma rmtree_missing:
  "dirs w p = None \<Longrightarrow>
   rmtree (Some p) ignore_missing_dir_error w = (Returns (), w\<lparr>events := events w @ [Rmtree p]\<rparr>)"
  by (simp add: rmtree_def ignore_missing_dir_error_def Let_def)

lemma rmtree_removes: "dirs (snd (rmtree (Some p) ignore_missing_dir_error w)) p = None"
  by (cases "dirs w p") (simp_all add: rmtree_def ignore_missing_dir_error_def Let_def)

text \<open>
  Claim C8. \<^verbatim>\<open>shutil.rmtree(old_test_script_dir, onerror=_ignore_missing_dir_error)\<close>
  on a directory that is no longer there returns without an error and leaves the
  directories as they are.
\<close>

theorem rmtree_tolerates_missing_directory:
  assumes "dirs w old_test_script_dir = None"
  shows "rmtree (Some old_test_script_dir) ignore_missing_dir_error w =
           (Returns (), w\<lparr>events := events w @ [Rmtree old_test_script_dir]\<rparr>)"
  using assms by (rule rmtree_missing)

theorem rmtree_tolerates_missing_directory_witness:
  "dirs (example_world\<lparr>dirs := (dirs example_world)(''/w/scripts/m/1/test_scripts_50'' := None)\<rparr>)
      ''/w/scripts/m/1/test_scripts_50'' = None
   \<and> rmtree (Some ''/w/scripts/m/1/test_scripts_50'') ignore_missing_dir_error
        (example_world\<lparr>dirs := (dirs example_world)(''/w/scripts/m/1/test_scripts_50'' := None)\<rparr>) =
      (Returns (),
       example_world\<lparr>dirs := (dirs example_world)(''/w/scripts/m/1/test_scripts_50'' := None),
                     events := [Rmtree ''/w/scripts/m/1/test_scripts_50'']\<rparr>)"
proof -
  let ?w = "example_world\<lparr>dirs := (dirs example_world)(''/w/scripts/m/1/test_scripts_50'' := None)\<rparr>"
  have a: "dirs ?w ''/w/scripts/m/1/test_scripts_50'' = None" by simp
  from rmtree_tolerates_missing_directory [OF a] a show ?thesis
    by (simp add: example_world_def)
qed

text \<open>
  Deleting twice is deleting once. In \<^verbatim>\<open>update_test_scripts\<close> itself, when another
  worker has removed the old directory while this one waited for the exclusive lock,
  the update still returns. (A directory that is already gone when \<^verbatim>\<open>os.open\<close> is
  called is another matter: \<^verbatim>\<open>fd_open\<close> raises before any deletion.)
\<close>

lemma rmtree_twice:
  "rmtree (Some p) ignore_missing_dir_error
     (snd (rmtree (Some p) ignore_missing_dir_error w)) =
   (Returns (), (snd (rmtree (Some p) ignore_missing_dir_error w))
      \<lparr>events := events (snd (rmtree (Some p) ignore_missing_dir_error w)) @ [Rmtree p]\<rparr>)"
  by (rule rmtree_missing [OF rmtree_removes])

lemma update_test_scripts_old_dir_vanished:
  "fst (update_test_scripts example_config
          (\<lambda>w. w\<lparr>dirs := (dirs w)(''/w/scripts/m/1/test_scripts_50'' := None)\<rparr>)
          100 ''/new'' ''1'' ''m'' example_world) = Returns ()"
  by (simp add: example_run)

lemma update_test_scripts_old_dir_missing_at_open:
  "fst (update_test_scripts example_config (\<lambda>w. w) 100 ''/new'' ''1'' ''m''
          (example_world\<lparr>dirs := (dirs example_world)(''/w/scripts/m/1/test_scripts_50'' := None)\<rparr>))
     = Raises FileNotFoundError"
  by (simp add: example_run)

end
